theory Spec2Isabelle
  imports Complex_Main "HOL-Library.Word" "HOL-Library.Log_Nat"
begin

text \<open>
  A model of \<^verbatim>\<open>OBJRenderer.cpp\<close>, the renderer of a Wavefront OBJ mesh for
  the HoloLens: the reader \<^verbatim>\<open>parseOBJ\<close> with the centering and scaling that
  ends it, \<^verbatim>\<open>Render\<close>, and the creation and release of the device resources.
  Line numbers are those of that file.
\<close>

section \<open>The FLOAT type of the renderer\<close>

text \<open>
  \<^verbatim>\<open>FLOAT\<close> is the IEEE 754 binary32 type. A value is a finite rational, an
  infinity or a NaN. The sign of a zero is not kept: the code only divides by
  \<^verbatim>\<open>5.0f * fabs(..)\<close> and by the square root of a sum of squares, which are
  never a negative zero, and a zero numerator over a zero divisor is a NaN
  whatever its sign.

  Every operation computes the exact rational result and hands it to a rounding
  function \<open>rnd\<close>. The rounding of the machine is \<open>round32\<close>: to nearest, ties to
  even, 24 significant bits, gradual underflow, overflow to infinity.
\<close>

datatype fval = Finite rat | PInf | NInf | NaN

type_synonym rounding = "rat \<Rightarrow> fval"

definition pow2 :: "int \<Rightarrow> rat" where
  "pow2 e = (if 0 \<le> e then 2 ^ nat e else 1 / 2 ^ nat (- e))"

definition ilog2 :: "rat \<Rightarrow> int" where
  \<comment> \<open>for \<open>q \<noteq> 0\<close>: the exponent \<open>e\<close> with \<open>2 ^ e \<le> |q| < 2 ^ (e + 1)\<close>\<close>
  "ilog2 q =
     (let (n, d) = quotient_of \<bar>q\<bar>;
          e = bitlen n - bitlen d
      in if pow2 e \<le> \<bar>q\<bar> then e else e - 1)"

definition round_even :: "rat \<Rightarrow> int" where
  \<comment> \<open>nearest integer, a tie goes to the even neighbour\<close>
  "round_even r =
     (let f = \<lfloor>r\<rfloor>; d = r - of_int f
      in if d < 1 / 2 then f
         else if 1 / 2 < d then f + 1
         else if even f then f else f + 1)"

definition round32 :: rounding where
  "round32 q =
     (if q = 0 then Finite 0
      else let e = max (ilog2 q) (- 126);
               u = pow2 (e - 23);
               r = of_int (round_even (q / u)) * u
           in if pow2 128 \<le> \<bar>r\<bar> then (if 0 < q then PInf else NInf)
              else Finite r)"

fun fneg :: "fval \<Rightarrow> fval" where
  "fneg (Finite a) = Finite (- a)"
| "fneg PInf = NInf"
| "fneg NInf = PInf"
| "fneg NaN = NaN"

fun fabs :: "fval \<Rightarrow> fval" where
  "fabs (Finite a) = Finite \<bar>a\<bar>"
| "fabs PInf = PInf"
| "fabs NInf = PInf"
| "fabs NaN = NaN"

fun fadd :: "rounding \<Rightarrow> fval \<Rightarrow> fval \<Rightarrow> fval" where
  "fadd rnd (Finite a) (Finite b) = rnd (a + b)"
| "fadd rnd NaN _ = NaN"
| "fadd rnd _ NaN = NaN"
| "fadd rnd PInf NInf = NaN"
| "fadd rnd NInf PInf = NaN"
| "fadd rnd PInf _ = PInf"
| "fadd rnd NInf _ = NInf"
| "fadd rnd _ PInf = PInf"
| "fadd rnd _ NInf = NInf"

definition fsub :: "rounding \<Rightarrow> fval \<Rightarrow> fval \<Rightarrow> fval" where
  "fsub rnd a b = fadd rnd a (fneg b)"

definition signed_inf :: "bool \<Rightarrow> fval" where
  "signed_inf positive = (if positive then PInf else NInf)"

fun fmul :: "rounding \<Rightarrow> fval \<Rightarrow> fval \<Rightarrow> fval" where
  "fmul rnd (Finite a) (Finite b) = rnd (a * b)"
| "fmul rnd NaN _ = NaN"
| "fmul rnd _ NaN = NaN"
| "fmul rnd (Finite a) PInf = (if a = 0 then NaN else signed_inf (0 < a))"
| "fmul rnd (Finite a) NInf = (if a = 0 then NaN else signed_inf (a < 0))"
| "fmul rnd PInf (Finite b) = (if b = 0 then NaN else signed_inf (0 < b))"
| "fmul rnd NInf (Finite b) = (if b = 0 then NaN else signed_inf (b < 0))"
| "fmul rnd PInf PInf = PInf"
| "fmul rnd PInf NInf = NInf"
| "fmul rnd NInf PInf = NInf"
| "fmul rnd NInf NInf = PInf"

fun fdiv :: "rounding \<Rightarrow> fval \<Rightarrow> fval \<Rightarrow> fval" where
  "fdiv rnd (Finite a) (Finite b) =
     (if b = 0 then (if a = 0 then NaN else signed_inf (0 < a))
      else rnd (a / b))"
| "fdiv rnd NaN _ = NaN"
| "fdiv rnd _ NaN = NaN"
| "fdiv rnd (Finite a) PInf = Finite 0"
| "fdiv rnd (Finite a) NInf = Finite 0"
| "fdiv rnd PInf (Finite b) = signed_inf (0 \<le> b)"
| "fdiv rnd NInf (Finite b) = signed_inf (b < 0)"
| "fdiv rnd PInf PInf = NaN"
| "fdiv rnd PInf NInf = NaN"
| "fdiv rnd NInf PInf = NaN"
| "fdiv rnd NInf NInf = NaN"

fun fless :: "fval \<Rightarrow> fval \<Rightarrow> bool" where
  "fless (Finite a) (Finite b) = (a < b)"
| "fless NaN _ = False"
| "fless _ NaN = False"
| "fless NInf NInf = False"
| "fless NInf _ = True"
| "fless _ NInf = False"
| "fless PInf _ = False"
| "fless _ PInf = True"

section \<open>The mesh\<close>

text \<open>
  \<^verbatim>\<open>XMFLOAT3\<close> and \<^verbatim>\<open>VertexPositionColor\<close> as the code uses them: a vertex
  is a position and a colour, and the colour slot holds the unit normal.
\<close>

record XMFLOAT3 =
  x_of :: fval
  y_of :: fval
  z_of :: fval

record VertexPositionColor =
  pos :: XMFLOAT3
  color :: XMFLOAT3

text \<open>
  What can go wrong in \<^verbatim>\<open>parseOBJ\<close>. \<^verbatim>\<open>std::stof\<close> and \<^verbatim>\<open>std::stoi\<close> throw
  \<^verbatim>\<open>std::invalid_argument\<close> or \<^verbatim>\<open>std::out_of_range\<close>, and nothing in the code
  catches them. The other failures are operations whose behaviour C++ leaves
  undefined: \<^verbatim>\<open>back()\<close> of an empty vector, reading through an end iterator,
  \<^verbatim>\<open>operator[]\<close> beyond the size. The code holds no check in front of them.
\<close>

datatype exception = InvalidArgument | OutOfRange

datatype undefined_op = BackOfEmpty | DerefEnd | IndexOutOfBounds

datatype failure = Thrown exception | Undefined undefined_op

definition throwing :: "exception + 'a \<Rightarrow> failure + 'a" where
  "throwing r = (case r of Inl e \<Rightarrow> Inl (Thrown e) | Inr v \<Rightarrow> Inr v)"

definition and_then :: "failure + 'a \<Rightarrow> ('a \<Rightarrow> failure + 'b) \<Rightarrow> failure + 'b" where
  "and_then r f = (case r of Inl e \<Rightarrow> Inl e | Inr v \<Rightarrow> f v)"

text \<open>\<^verbatim>\<open>operator[]\<close> of a vector: reading beyond the size is undefined.\<close>

definition subscript :: "'a list \<Rightarrow> nat \<Rightarrow> failure + 'a" where
  "subscript xs i = (if i < length xs then Inr (xs ! i) else Inl (Undefined IndexOutOfBounds))"

section \<open>Centering and scaling (lines 416 to 439)\<close>

text \<open>
  \<^verbatim>\<open>std::max_element\<close> and \<^verbatim>\<open>std::min_element\<close> over a range: the scan keeps the
  first extremum under the strict comparison, and an empty range gives the end
  iterator, here \<open>None\<close>. Reading through the end iterator is undefined.
\<close>

fun max_scan :: "('a \<Rightarrow> 'a \<Rightarrow> bool) \<Rightarrow> 'a \<Rightarrow> 'a list \<Rightarrow> 'a" where
  "max_scan cmp largest [] = largest"
| "max_scan cmp largest (v # vs) = max_scan cmp (if cmp largest v then v else largest) vs"

fun min_scan :: "('a \<Rightarrow> 'a \<Rightarrow> bool) \<Rightarrow> 'a \<Rightarrow> 'a list \<Rightarrow> 'a" where
  "min_scan cmp smallest [] = smallest"
| "min_scan cmp smallest (v # vs) = min_scan cmp (if cmp v smallest then v else smallest) vs"

definition max_element :: "('a \<Rightarrow> 'a \<Rightarrow> bool) \<Rightarrow> 'a list \<Rightarrow> 'a option" where
  "max_element cmp vs = (case vs of [] \<Rightarrow> None | v # rest \<Rightarrow> Some (max_scan cmp v rest))"

definition min_element :: "('a \<Rightarrow> 'a \<Rightarrow> bool) \<Rightarrow> 'a list \<Rightarrow> 'a option" where
  "min_element cmp vs = (case vs of [] \<Rightarrow> None | v # rest \<Rightarrow> Some (min_scan cmp v rest))"

definition deref :: "'a option \<Rightarrow> failure + 'a" where
  "deref it = (case it of None \<Rightarrow> Inl (Undefined DerefEnd) | Some v \<Rightarrow> Inr v)"

text \<open>
  The six lambdas of the code differ only in the coordinate they compare; \<open>ax\<close>
  is that coordinate (\<open>x_of\<close>, \<open>y_of\<close> or \<open>z_of\<close>).
\<close>

definition pos_less :: "(XMFLOAT3 \<Rightarrow> fval) \<Rightarrow> VertexPositionColor \<Rightarrow> VertexPositionColor \<Rightarrow> bool" where
  "pos_less ax v1 v2 = fless (ax (pos v1)) (ax (pos v2))"

definition max_pos :: "(XMFLOAT3 \<Rightarrow> fval) \<Rightarrow> VertexPositionColor list \<Rightarrow> failure + fval" where
  "max_pos ax vs = and_then (deref (max_element (pos_less ax) vs)) (\<lambda>v. Inr (ax (pos v)))"

definition min_pos :: "(XMFLOAT3 \<Rightarrow> fval) \<Rightarrow> VertexPositionColor list \<Rightarrow> failure + fval" where
  "min_pos ax vs = and_then (deref (min_element (pos_less ax) vs)) (\<lambda>v. Inr (ax (pos v)))"

text \<open>
  The axes, to speak of one coordinate at a time: the coordinate of a position,
  and a compound assignment \<^verbatim>\<open>v.pos.x op= ..\<close> to the coordinate of a vertex.
\<close>

datatype axis = AxisX | AxisY | AxisZ

fun coord :: "axis \<Rightarrow> XMFLOAT3 \<Rightarrow> fval" where
  "coord AxisX p = x_of p"
| "coord AxisY p = y_of p"
| "coord AxisZ p = z_of p"

fun assign_coord :: "axis \<Rightarrow> (fval \<Rightarrow> fval) \<Rightarrow> VertexPositionColor \<Rightarrow> VertexPositionColor" where
  "assign_coord AxisX g v = v\<lparr>pos := (pos v)\<lparr>x_of := g (x_of (pos v))\<rparr>\<rparr>"
| "assign_coord AxisY g v = v\<lparr>pos := (pos v)\<lparr>y_of := g (y_of (pos v))\<rparr>\<rparr>"
| "assign_coord AxisZ g v = v\<lparr>pos := (pos v)\<lparr>z_of := g (z_of (pos v))\<rparr>\<rparr>"

text \<open>
  One statement of the final loop, such as \<^verbatim>\<open>vertices[i].pos.x -= avgX\<close>:
  \<^verbatim>\<open>operator[]\<close> gives the element at \<open>i\<close>, which is undefined beyond the size,
  and the statement writes that element in place.
\<close>

definition modify :: "nat \<Rightarrow> ('a \<Rightarrow> 'a) \<Rightarrow> 'a list \<Rightarrow> failure + 'a list" where
  "modify i g xs = and_then (subscript xs i) (\<lambda>x. Inr (xs[i := g x]))"

text \<open>
  The six statements of the loop body (lines 433 to 438), in their order, as
  what each does to the vertex it reaches. The product \<^verbatim>\<open>5.0f * delX\<close> is
  computed in the statement that divides by it.
\<close>

definition scale_steps ::
  "rounding \<Rightarrow> fval \<Rightarrow> fval \<Rightarrow> fval \<Rightarrow> fval \<Rightarrow> fval \<Rightarrow> fval \<Rightarrow>
   (VertexPositionColor \<Rightarrow> VertexPositionColor) list" where
  "scale_steps rnd avgX delX avgY delY avgZ delZ =
     [assign_coord AxisX (\<lambda>p. fsub rnd p avgX),
      assign_coord AxisX (\<lambda>p. fdiv rnd p (fmul rnd (Finite 5) delX)),
      assign_coord AxisY (\<lambda>p. fsub rnd p avgY),
      assign_coord AxisY (\<lambda>p. fdiv rnd p (fmul rnd (Finite 5) delY)),
      assign_coord AxisZ (\<lambda>p. fsub rnd p avgZ),
      assign_coord AxisZ (\<lambda>p. fdiv rnd p (fmul rnd (Finite 5) delZ))]"

text \<open>The statements of a loop body, one after the other, each through \<^verbatim>\<open>vertices[i]\<close>.\<close>

fun run_steps :: "nat \<Rightarrow> ('a \<Rightarrow> 'a) list \<Rightarrow> 'a list \<Rightarrow> failure + 'a list" where
  "run_steps i [] xs = Inr xs"
| "run_steps i (g # gs) xs = and_then (modify i g xs) (run_steps i gs)"

text \<open>
  The loop \<^verbatim>\<open>for (uint32 i = 0; i < vertices.size(); i++)\<close>. The size is read
  again at every turn. The counter is a natural number: the vector would need
  \<open>2 ^ 32\<close> vertices for it to wrap.
\<close>

function scale_loop ::
  "(VertexPositionColor \<Rightarrow> VertexPositionColor) list \<Rightarrow> nat \<Rightarrow>
   VertexPositionColor list \<Rightarrow> failure + VertexPositionColor list" where
  "scale_loop steps i vs =
     (if i < length vs then
        (case run_steps i steps vs of
           Inl e \<Rightarrow> Inl e
         | Inr vs' \<Rightarrow> scale_loop steps (i + 1) vs')
      else Inr vs)"
  by pat_completeness auto
termination
proof (relation "measure (\<lambda>(steps, i, vs). length vs - i)")
  fix steps :: "(VertexPositionColor \<Rightarrow> VertexPositionColor) list"
    and i :: nat and vs vs' :: "VertexPositionColor list"
  assume less: "i < length vs" and run: "run_steps i steps vs = Inr vs'"
  have "run_steps i gs xs = Inr ys \<Longrightarrow> length ys = length xs"
    for gs and xs ys :: "VertexPositionColor list"
  proof (induction gs arbitrary: xs)
    case Nil
    then show ?case by simp
  next
    case (Cons g gs)
    from Cons.prems obtain zs where "modify i g xs = Inr zs" and "run_steps i gs zs = Inr ys"
      by (cases "modify i g xs") (simp_all add: and_then_def)
    moreover from this(1) have "length zs = length xs"
      by (auto simp: modify_def subscript_def and_then_def split: if_splits)
    ultimately show ?case using Cons.IH by simp
  qed
  from this [OF run] less
  show "((steps, i + 1, vs'), steps, i, vs) \<in> measure (\<lambda>(steps, i, vs). length vs - i)"
    by simp
qed simp

declare scale_loop.simps [simp del]

text \<open>
  What the two statements of one coordinate make of it together:
  \<open>(p - avg) / (5 * del)\<close>, each operation rounded.
\<close>

definition scale_axis :: "rounding \<Rightarrow> fval \<Rightarrow> fval \<Rightarrow> fval \<Rightarrow> fval" where
  "scale_axis rnd avg del p = fdiv rnd (fsub rnd p avg) (fmul rnd (Finite 5) del)"

definition center_and_scale ::
  "rounding \<Rightarrow> VertexPositionColor list \<Rightarrow> failure + VertexPositionColor list" where
  "center_and_scale rnd vs =
     and_then (max_pos x_of vs) (\<lambda>maxX.
     and_then (max_pos y_of vs) (\<lambda>maxY.
     and_then (max_pos z_of vs) (\<lambda>maxZ.
     and_then (min_pos x_of vs) (\<lambda>minX.
     and_then (min_pos y_of vs) (\<lambda>minY.
     and_then (min_pos z_of vs) (\<lambda>minZ.
       let delX = fabs (fsub rnd maxX minX);
           delY = fabs (fsub rnd maxY minY);
           delZ = fabs (fsub rnd maxZ minZ);
           avgX = fdiv rnd (fadd rnd maxX minX) (Finite 2);
           avgY = fdiv rnd (fadd rnd maxY minY) (Finite 2);
           avgZ = fdiv rnd (fadd rnd maxZ minZ) (Finite 2)
       in scale_loop (scale_steps rnd avgX delX avgY delY avgZ delZ) 0 vs))))))"

text \<open>
  The quantities the properties of the normalization are stated with, computed
  from a vertex sequence with the same scans and the same arithmetic: the
  centre \<open>(max + min) / 2\<close> and the span \<open>max - min\<close> of one coordinate.
\<close>

definition center_of :: "rounding \<Rightarrow> (XMFLOAT3 \<Rightarrow> fval) \<Rightarrow> VertexPositionColor list \<Rightarrow> failure + fval" where
  "center_of rnd ax vs =
     and_then (max_pos ax vs) (\<lambda>mx. and_then (min_pos ax vs) (\<lambda>mn.
       Inr (fdiv rnd (fadd rnd mx mn) (Finite 2))))"

definition span_of :: "rounding \<Rightarrow> (XMFLOAT3 \<Rightarrow> fval) \<Rightarrow> VertexPositionColor list \<Rightarrow> failure + fval" where
  "span_of rnd ax vs =
     and_then (max_pos ax vs) (\<lambda>mx. and_then (min_pos ax vs) (\<lambda>mn. Inr (fsub rnd mx mn)))"

text \<open>
  The translation of a vertex along an axis by an offset, computed in the
  arithmetic of the coordinates.
\<close>

fun translate_pos :: "rounding \<Rightarrow> axis \<Rightarrow> fval \<Rightarrow> XMFLOAT3 \<Rightarrow> XMFLOAT3" where
  "translate_pos rd AxisX t p = p\<lparr>x_of := fadd rd (x_of p) t\<rparr>"
| "translate_pos rd AxisY t p = p\<lparr>y_of := fadd rd (y_of p) t\<rparr>"
| "translate_pos rd AxisZ t p = p\<lparr>z_of := fadd rd (z_of p) t\<rparr>"

definition translate :: "rounding \<Rightarrow> axis \<Rightarrow> fval \<Rightarrow> VertexPositionColor \<Rightarrow> VertexPositionColor" where
  "translate rd a t v = v\<lparr>pos := translate_pos rd a t (pos v)\<rparr>"

text \<open>
  The normalization works on each coordinate by itself. \<open>coords\<close> is the list
  of one coordinate of the positions, and \<open>normalize_coords\<close>, \<open>center_coords\<close>
  and \<open>span_coords\<close> are what \<open>center_and_scale\<close>, \<open>center_of\<close> and \<open>span_of\<close>
  compute on that list.
\<close>

definition coords :: "axis \<Rightarrow> VertexPositionColor list \<Rightarrow> fval list" where
  "coords a vs = map (\<lambda>v. coord a (pos v)) vs"

definition normalize_coords :: "rounding \<Rightarrow> fval list \<Rightarrow> fval list" where
  "normalize_coords rd cs =
     (case cs of
        [] \<Rightarrow> []
      | c # rest \<Rightarrow>
          let mx = max_scan fless c rest;
              mn = min_scan fless c rest;
              del = fabs (fsub rd mx mn);
              avg = fdiv rd (fadd rd mx mn) (Finite 2)
          in map (scale_axis rd avg del) cs)"

definition center_coords :: "rounding \<Rightarrow> fval list \<Rightarrow> failure + fval" where
  "center_coords rd cs =
     (case cs of
        [] \<Rightarrow> Inl (Undefined DerefEnd)
      | c # rest \<Rightarrow>
          Inr (fdiv rd (fadd rd (max_scan fless c rest) (min_scan fless c rest)) (Finite 2)))"

definition span_coords :: "rounding \<Rightarrow> fval list \<Rightarrow> failure + fval" where
  "span_coords rd cs =
     (case cs of
        [] \<Rightarrow> Inl (Undefined DerefEnd)
      | c # rest \<Rightarrow> Inr (fsub rd (max_scan fless c rest) (min_scan fless c rest)))"

fun is_finite :: "fval \<Rightarrow> bool" where
  "is_finite (Finite q) = True"
| "is_finite _ = False"

fun value_of :: "fval \<Rightarrow> rat" where
  "value_of (Finite q) = q"
| "value_of _ = 0"

text \<open>
  One coordinate of the positions after the normalization, with its span and
  its centre.
\<close>

definition normalized_coords :: "rounding \<Rightarrow> axis \<Rightarrow> VertexPositionColor list \<Rightarrow> failure + fval list" where
  "normalized_coords rd a vs = and_then (center_and_scale rd vs) (\<lambda>out. Inr (coords a out))"

definition normalized_span :: "rounding \<Rightarrow> axis \<Rightarrow> VertexPositionColor list \<Rightarrow> failure + fval" where
  "normalized_span rd a vs = and_then (center_and_scale rd vs) (span_of rd (coord a))"

definition normalized_center :: "rounding \<Rightarrow> axis \<Rightarrow> VertexPositionColor list \<Rightarrow> failure + fval" where
  "normalized_center rd a vs = and_then (center_and_scale rd vs) (center_of rd (coord a))"

text \<open>
  A rational is a binary32 number when the rounding of the machine leaves it
  as it is.
\<close>

definition binary32 :: "rat \<Rightarrow> bool" where
  "binary32 q = (round32 q = Finite q)"

text \<open>
  A mesh is a cube along an axis when each of its positions has, on that axis,
  one of two coordinates \<open>lo < hi\<close>, and both occur.
\<close>

definition cube_on :: "axis \<Rightarrow> rat \<Rightarrow> rat \<Rightarrow> VertexPositionColor list \<Rightarrow> bool" where
  "cube_on a lo hi vs =
     (lo < hi \<and>
      (\<forall>v \<in> set vs. coord a (pos v) = Finite lo \<or> coord a (pos v) = Finite hi) \<and>
      (\<exists>v \<in> set vs. coord a (pos v) = Finite lo) \<and>
      (\<exists>v \<in> set vs. coord a (pos v) = Finite hi))"

text \<open>
  Sample meshes: a vertex at a finite position (its colour is the normal
  \<open>(0, 0, 1)\<close>), the cube with the eight corners whose coordinates are \<open>lo\<close> or
  \<open>hi\<close>, the cube with the corners \<open>(\<plusminus>1, \<plusminus>1, \<plusminus>1)\<close>, and a mesh of two
  vertices \<open>(p, 0, 0)\<close> and \<open>(q, 1, 1)\<close>.
\<close>

definition vertex_at :: "rat \<Rightarrow> rat \<Rightarrow> rat \<Rightarrow> VertexPositionColor" where
  "vertex_at a b c =
     \<lparr>pos = \<lparr>x_of = Finite a, y_of = Finite b, z_of = Finite c\<rparr>,
      color = \<lparr>x_of = Finite 0, y_of = Finite 0, z_of = Finite 1\<rparr>\<rparr>"

definition cube_at :: "rat \<Rightarrow> rat \<Rightarrow> VertexPositionColor list" where
  "cube_at lo hi =
     [vertex_at lo lo lo, vertex_at lo lo hi, vertex_at lo hi lo, vertex_at lo hi hi,
      vertex_at hi lo lo, vertex_at hi lo hi, vertex_at hi hi lo, vertex_at hi hi hi]"

definition unit_cube :: "VertexPositionColor list" where
  "unit_cube = cube_at (- 1) 1"

definition two_vertices :: "rat \<Rightarrow> rat \<Rightarrow> VertexPositionColor list" where
  "two_vertices p q = [vertex_at p 0 0, vertex_at q 1 1]"

section \<open>Reading the file (lines 318 to 414)\<close>

text \<open>
  The mesh is the pair of containers \<^verbatim>\<open>vertices\<close> and \<^verbatim>\<open>indices\<close>, which
  \<^verbatim>\<open>parseOBJ\<close> appends to; \<^verbatim>\<open>UINT\<close> is a 32-bit unsigned integer.
\<close>

record mesh =
  vertices :: "VertexPositionColor list"
  indices :: "32 word list"

definition empty_mesh :: mesh where
  "empty_mesh = \<lparr>vertices = [], indices = []\<rparr>"

text \<open>
  What the code takes from outside the repository: the rounding of \<^verbatim>\<open>FLOAT\<close>,
  \<^verbatim>\<open>std::stof\<close> (a value, or the exception it throws), \<^verbatim>\<open>sqrt\<close>, and the
  contents of a \<^verbatim>\<open>VertexPositionColor\<close> that was declared and never assigned:
  \<open>fresh_pos env n\<close> is what the position slot of the \<open>n\<close>-th pushed vertex holds
  before a \<^verbatim>\<open>v\<close> record writes it.
\<close>

record env =
  rnd :: rounding
  stof :: "string \<Rightarrow> exception + fval"
  fsqrt :: "fval \<Rightarrow> fval"
  fresh_pos :: "nat \<Rightarrow> XMFLOAT3"

text \<open>
  \<^verbatim>\<open>std::getline(stream, s, delim)\<close> on what is left of a stream: it fails when
  nothing is left, and otherwise takes the characters up to the delimiter and
  drops the delimiter.
\<close>

definition getline :: "char \<Rightarrow> string \<Rightarrow> (string \<times> string) option" where
  "getline delim cs =
     (if cs = [] then None
      else Some (takeWhile (\<lambda>c. c \<noteq> delim) cs, drop 1 (dropWhile (\<lambda>c. c \<noteq> delim) cs)))"

text \<open>The tokenizer: \<^verbatim>\<open>while (ss) { if (!getline(ss, data, ' ')) break; rec.push_back(data); }\<close>\<close>

function split_loop :: "string \<Rightarrow> string list \<Rightarrow> string list" where
  "split_loop cs rec =
     (case getline (CHR '' '') cs of
        None \<Rightarrow> rec
      | Some (data, rest) \<Rightarrow> split_loop rest (rec @ [data]))"
  by pat_completeness auto
termination
proof (relation "measure (\<lambda>(cs, rec). length cs)")
  fix cs :: string and rec :: "string list" and got data rest
  assume "getline (CHR '' '') cs = Some got" and "(data, rest) = got"
  then have "cs \<noteq> []" and "rest = drop 1 (dropWhile (\<lambda>c. c \<noteq> CHR '' '') cs)"
    by (auto simp: getline_def split: if_splits)
  with length_dropWhile_le [of "\<lambda>c. c \<noteq> CHR '' ''" cs]
  show "((rest, rec @ [data]), cs, rec) \<in> measure (\<lambda>(cs, rec). length cs)"
    by (cases cs) auto
qed simp

declare split_loop.simps [simp del]

text \<open>
  \<^verbatim>\<open>std::stoi\<close>: \<^verbatim>\<open>strtol\<close> in base 10 skips white space, reads a sign and the
  longest run of digits, and ignores what follows; \<^verbatim>\<open>stoi\<close> throws
  \<^verbatim>\<open>invalid_argument\<close> when there is no digit and \<^verbatim>\<open>out_of_range\<close> when the
  value does not fit a 32-bit \<^verbatim>\<open>int\<close>.
\<close>

definition isspace :: "char \<Rightarrow> bool" where
  "isspace c = (c \<in> set [CHR '' '', CHR 0x09, CHR 0x0A, CHR 0x0B, CHR 0x0C, CHR 0x0D])"

definition isdigit :: "char \<Rightarrow> bool" where
  "isdigit c = (48 \<le> (of_char c :: nat) \<and> (of_char c :: nat) \<le> 57)"

definition digit_value :: "char \<Rightarrow> int" where
  "digit_value c = int (of_char c :: nat) - 48"

definition digits_value :: "string \<Rightarrow> int" where
  "digits_value ds = foldl (\<lambda>acc c. 10 * acc + digit_value c) 0 ds"

definition stoi :: "string \<Rightarrow> exception + int" where
  "stoi s =
     (let s1 = dropWhile isspace s;
          negative = (s1 \<noteq> [] \<and> hd s1 = CHR ''-'');
          s2 = (if s1 \<noteq> [] \<and> (hd s1 = CHR ''-'' \<or> hd s1 = CHR ''+'') then tl s1 else s1);
          ds = takeWhile isdigit s2;
          n = (if negative then - digits_value ds else digits_value ds)
      in if ds = [] then Inl InvalidArgument
         else if n < - (2 ^ 31) \<or> 2 ^ 31 - 1 < n then Inl OutOfRange
         else Inr n)"

text \<open>
  One face reference: \<^verbatim>\<open>(UINT)std::stoi(tok.substr(0, tok.find_first_of('/'))) - 1\<close>.
  The subtraction is the one of \<^verbatim>\<open>UINT\<close>.
\<close>

definition face_index :: "string \<Rightarrow> failure + 32 word" where
  "face_index tok =
     and_then (throwing (stoi (takeWhile (\<lambda>c. c \<noteq> CHR ''/'') tok))) (\<lambda>n. Inr (word_of_int n - 1))"

text \<open>\<^verbatim>\<open>vertices.back().pos = p\<close>: \<^verbatim>\<open>back()\<close> of an empty vector is undefined.\<close>

definition set_back_pos :: "XMFLOAT3 \<Rightarrow> VertexPositionColor list \<Rightarrow> failure + VertexPositionColor list" where
  "set_back_pos p vs =
     (if vs = [] then Inl (Undefined BackOfEmpty)
      else Inr (vs[length vs - 1 := (vs ! (length vs - 1))\<lparr>pos := p\<rparr>]))"

definition stof_at :: "env \<Rightarrow> string list \<Rightarrow> nat \<Rightarrow> failure + fval" where
  "stof_at env rec i = and_then (subscript rec i) (\<lambda>tok. throwing (stof env tok))"

definition parse_vn :: "env \<Rightarrow> mesh \<Rightarrow> string list \<Rightarrow> failure + mesh" where
  "parse_vn env st rec =
     (if length rec \<noteq> 4 then Inr st
      else
        and_then (stof_at env rec 1) (\<lambda>nx.
        and_then (stof_at env rec 2) (\<lambda>ny.
        and_then (stof_at env rec 3) (\<lambda>nz.
          let r = rnd env;
              len = fsqrt env (fadd r (fadd r (fmul r nx nx) (fmul r ny ny)) (fmul r nz nz));
              v = \<lparr>pos = fresh_pos env (length (vertices st)),
                   color = \<lparr>x_of = fdiv r nx len, y_of = fdiv r ny len, z_of = fdiv r nz len\<rparr>\<rparr>
          in Inr (st\<lparr>vertices := vertices st @ [v]\<rparr>)))))"

definition parse_v :: "env \<Rightarrow> mesh \<Rightarrow> string list \<Rightarrow> failure + mesh" where
  "parse_v env st rec =
     (if length rec \<noteq> 4 \<and> length rec \<noteq> 7 then Inr st
      else if length rec = 7 then
        and_then (stof_at env rec 1) (\<lambda>x.
        and_then (stof_at env rec 2) (\<lambda>y.
        and_then (stof_at env rec 3) (\<lambda>z.
        and_then (stof_at env rec 4) (\<lambda>r.
        and_then (stof_at env rec 5) (\<lambda>g.
        and_then (stof_at env rec 6) (\<lambda>b.
        and_then (set_back_pos \<lparr>x_of = x, y_of = y, z_of = z\<rparr> (vertices st)) (\<lambda>vs.
          Inr (st\<lparr>vertices := vs\<rparr>))))))))
      else
        and_then (stof_at env rec 1) (\<lambda>x.
        and_then (stof_at env rec 2) (\<lambda>y.
        and_then (stof_at env rec 3) (\<lambda>z.
        and_then (set_back_pos \<lparr>x_of = x, y_of = y, z_of = z\<rparr> (vertices st)) (\<lambda>vs.
          Inr (st\<lparr>vertices := vs\<rparr>))))))"

definition parse_f :: "mesh \<Rightarrow> string list \<Rightarrow> failure + mesh" where
  "parse_f st rec =
     (if length rec \<noteq> 4 then Inr st
      else
        and_then (and_then (subscript rec 1) face_index) (\<lambda>v1.
        and_then (and_then (subscript rec 2) face_index) (\<lambda>v2.
        and_then (and_then (subscript rec 3) face_index) (\<lambda>v3.
          Inr (st\<lparr>indices := indices st @ [v3, v2, v1]\<rparr>)))))"

text \<open>The dispatch on the first token of a record.\<close>

definition parse_record :: "env \<Rightarrow> mesh \<Rightarrow> string list \<Rightarrow> failure + mesh" where
  "parse_record env st rec =
     (if rec = [] then Inr st
      else and_then (subscript rec 0) (\<lambda>tag.
        if tag = ''vn'' then parse_vn env st rec
        else if tag = ''v'' then parse_v env st rec
        else if tag = ''f'' then parse_f st rec
        else Inr st))"

text \<open>The body of the reading loop for one line.\<close>

definition parse_line :: "env \<Rightarrow> mesh \<Rightarrow> string \<Rightarrow> failure + mesh" where
  "parse_line env st line =
     (if line = [] \<or> CHR ''#'' \<in> set line then Inr st
      else parse_record env st (split_loop line []))"

text \<open>
  The reading loop over what is left of the file. The counter \<^verbatim>\<open>lines\<close> and the
  message it prints every 1000 lines do not touch the mesh and are left out.
\<close>

function read_loop :: "env \<Rightarrow> string \<Rightarrow> mesh \<Rightarrow> failure + mesh" where
  "read_loop env content st =
     (case getline (CHR 0x0A) content of
        None \<Rightarrow> Inr st
      | Some (line, rest) \<Rightarrow>
          (case parse_line env st line of
             Inl e \<Rightarrow> Inl e
           | Inr st' \<Rightarrow> read_loop env rest st'))"
  by pat_completeness auto
termination
proof (relation "measure (\<lambda>(env, content, st). length content)")
  fix env :: env and content :: string and st st' :: mesh and got line rest
  assume "getline (CHR 0x0A) content = Some got" and "(line, rest) = got"
  then have "content \<noteq> []" and "rest = drop 1 (dropWhile (\<lambda>c. c \<noteq> CHR 0x0A) content)"
    by (auto simp: getline_def split: if_splits)
  with length_dropWhile_le [of "\<lambda>c. c \<noteq> CHR 0x0A" content]
  show "((env, rest, st'), env, content, st) \<in> measure (\<lambda>(env, content, st). length content)"
    by (cases content) auto
qed simp

declare read_loop.simps [simp del]

text \<open>
  \<^verbatim>\<open>parseOBJ\<close>. The stream is \<open>None\<close> when it is not open, and otherwise the
  characters of the file. The containers it appends to are not local to it, so
  the mesh it starts from is an argument.
\<close>

definition parseOBJ :: "env \<Rightarrow> string option \<Rightarrow> mesh \<Rightarrow> failure + mesh" where
  "parseOBJ env stream st =
     (case stream of
        None \<Rightarrow> Inr st
      | Some content \<Rightarrow>
          and_then (read_loop env content st) (\<lambda>st1.
          and_then (center_and_scale (rnd env) (vertices st1)) (\<lambda>vs.
            Inr (st1\<lparr>vertices := vs\<rparr>))))"

text \<open>
  The lines the reading loop sees, the record the loop body dispatches on for a
  line (none for a line it skips), and the loop over those lines.
\<close>

function file_lines :: "string \<Rightarrow> string list" where
  "file_lines content =
     (case getline (CHR 0x0A) content of
        None \<Rightarrow> []
      | Some (line, rest) \<Rightarrow> line # file_lines rest)"
  by pat_completeness auto
termination
proof (relation "measure length")
  fix content :: string and got line rest
  assume "getline (CHR 0x0A) content = Some got" and "(line, rest) = got"
  then have "content \<noteq> []" and "rest = drop 1 (dropWhile (\<lambda>c. c \<noteq> CHR 0x0A) content)"
    by (auto simp: getline_def split: if_splits)
  with length_dropWhile_le [of "\<lambda>c. c \<noteq> CHR 0x0A" content]
  show "(rest, content) \<in> measure length"
    by (cases content) auto
qed simp

declare file_lines.simps [simp del]

definition record_of :: "string \<Rightarrow> string list" where
  "record_of line = (if line = [] \<or> CHR ''#'' \<in> set line then [] else split_loop line [])"

fun parse_lines :: "env \<Rightarrow> mesh \<Rightarrow> string list \<Rightarrow> failure + mesh" where
  "parse_lines env st [] = Inr st"
| "parse_lines env st (line # ls) =
     (case parse_line env st line of
        Inl e \<Rightarrow> Inl e
      | Inr st' \<Rightarrow> parse_lines env st' ls)"

text \<open>
  The format assumption of the reader: a \<^verbatim>\<open>vn\<close> record with 4 tokens pushes a
  vertex, a \<^verbatim>\<open>v\<close> record with 4 or 7 tokens writes the last vertex, and every
  such \<^verbatim>\<open>v\<close> record comes after a vertex: one that was there before the call
  (\<open>seen\<close>) or one that an earlier \<^verbatim>\<open>vn\<close> record pushed.
\<close>

definition is_vn_record :: "string list \<Rightarrow> bool" where
  "is_vn_record rec = (rec \<noteq> [] \<and> hd rec = ''vn'' \<and> length rec = 4)"

definition is_v_record :: "string list \<Rightarrow> bool" where
  "is_v_record rec = (rec \<noteq> [] \<and> hd rec = ''v'' \<and> (length rec = 4 \<or> length rec = 7))"

fun v_preceded :: "bool \<Rightarrow> string list list \<Rightarrow> bool" where
  "v_preceded seen [] = True"
| "v_preceded seen (rec # recs) =
     (if is_v_record rec then seen \<and> v_preceded seen recs
      else v_preceded (seen \<or> is_vn_record rec) recs)"

text \<open>
  A failure that a caller can observe and handle is a thrown exception; an
  undefined operation is not one.
\<close>

definition fails_fast :: "failure + 'a \<Rightarrow> bool" where
  "fails_fast r = (case r of Inl (Thrown e) \<Rightarrow> True | Inl (Undefined u) \<Rightarrow> False | Inr v \<Rightarrow> False)"

section \<open>A concrete environment\<close>

text \<open>
  The environment the concrete runs below use: binary32 with \<^verbatim>\<open>std::stof\<close> and
  a correctly rounded \<^verbatim>\<open>sqrt\<close>.

  \<^verbatim>\<open>std::stof\<close> calls \<^verbatim>\<open>strtof\<close>, which skips white space, reads a sign, and
  then the longest of: \<^verbatim>\<open>inf\<close> and \<^verbatim>\<open>nan\<close> in either case (what follows them
  is ignored, as everything is that follows the number); \<^verbatim>\<open>0x\<close> with
  hexadecimal digits around an optional point and an optional binary exponent
  after \<^verbatim>\<open>p\<close>; decimal digits around an optional point and an optional
  exponent after \<^verbatim>\<open>e\<close>. An exponent letter counts only when digits follow
  it. \<^verbatim>\<open>stof\<close> throws \<^verbatim>\<open>invalid_argument\<close> when no number was read and
  \<^verbatim>\<open>out_of_range\<close> when \<^verbatim>\<open>strtof\<close> reports a range error: the value
  overflows, or it underflows, which is to say that it is not a binary32 number
  and is tiny: rounded to 24 bits with no bound on the exponent, it lies below
  the normal range.
\<close>

definition tolower :: "char \<Rightarrow> char" where
  "tolower c =
     (if 65 \<le> (of_char c :: nat) \<and> (of_char c :: nat) \<le> 90
      then char_of ((of_char c :: nat) + 32) else c)"

definition isxdigit :: "char \<Rightarrow> bool" where
  "isxdigit c =
     (isdigit c \<or> (97 \<le> (of_char (tolower c) :: nat) \<and> (of_char (tolower c) :: nat) \<le> 102))"

definition xdigit_value :: "char \<Rightarrow> int" where
  "xdigit_value c = (if isdigit c then digit_value c else int (of_char (tolower c) :: nat) - 87)"

definition xdigits_value :: "string \<Rightarrow> int" where
  "xdigits_value ds = foldl (\<lambda>acc c. 16 * acc + xdigit_value c) 0 ds"

definition scaled :: "rat \<Rightarrow> rat \<Rightarrow> int \<Rightarrow> rat" where
  \<comment> \<open>\<open>m * b ^ e\<close> for an exponent of either sign\<close>
  "scaled m b e = (if 0 \<le> e then m * b ^ nat e else m / b ^ nat (- e))"

definition exponent_of :: "char \<Rightarrow> string \<Rightarrow> int" where
  \<comment> \<open>the exponent after the letter \<open>mark\<close> at the head of \<open>s\<close>, and 0 when there is none\<close>
  "exponent_of mark s =
     (if s \<noteq> [] \<and> tolower (hd s) = mark then
        (let s1 = tl s;
             negative = (s1 \<noteq> [] \<and> hd s1 = CHR ''-'');
             s2 = (if s1 \<noteq> [] \<and> (hd s1 = CHR ''-'' \<or> hd s1 = CHR ''+'') then tl s1 else s1);
             ds = takeWhile isdigit s2
         in if negative then - digits_value ds else digits_value ds)
      else 0)"

definition mantissa ::
  "(char \<Rightarrow> bool) \<Rightarrow> (string \<Rightarrow> int) \<Rightarrow> rat \<Rightarrow> string \<Rightarrow> (rat \<times> string) option" where
  \<comment> \<open>digits around an optional point, and what follows them; none without a digit\<close>
  "mantissa is_digit digits base s =
     (let ip = takeWhile is_digit s;
          r = dropWhile is_digit s;
          point = (r \<noteq> [] \<and> hd r = CHR ''.'');
          fp = (if point then takeWhile is_digit (tl r) else []);
          rest = (if point then dropWhile is_digit (tl r) else r)
      in if ip = [] \<and> fp = [] then None
         else Some (of_int (digits ip) + of_int (digits fp) / base ^ length fp, rest))"

definition tiny :: "rat \<Rightarrow> bool" where
  "tiny q =
     (q \<noteq> 0 \<and>
      (let u = pow2 (ilog2 q - 23)
       in \<bar>of_int (round_even (q / u)) * u\<bar> < pow2 (- 126)))"

definition to_float :: "rat \<Rightarrow> exception + fval" where
  "to_float q =
     (case round32 q of
        Finite v \<Rightarrow> if tiny q \<and> v \<noteq> q then Inl OutOfRange else Inr (Finite v)
      | _ \<Rightarrow> Inl OutOfRange)"

definition stof32 :: "string \<Rightarrow> exception + fval" where
  "stof32 s =
     (let s1 = dropWhile isspace s;
          negative = (s1 \<noteq> [] \<and> hd s1 = CHR ''-'');
          s2 = (if s1 \<noteq> [] \<and> (hd s1 = CHR ''-'' \<or> hd s1 = CHR ''+'') then tl s1 else s1);
          sign = (if negative then - 1 else 1);
          hex = (if map tolower (take 2 s2) = ''0x''
                 then mantissa isxdigit xdigits_value 16 (drop 2 s2) else None)
      in if map tolower (take 3 s2) = ''inf'' then Inr (signed_inf (\<not> negative))
         else if map tolower (take 3 s2) = ''nan'' then Inr NaN
         else
           (case hex of
              Some (m, rest) \<Rightarrow> to_float (sign * scaled m 2 (exponent_of (CHR ''p'') rest))
            | None \<Rightarrow>
                (case mantissa isdigit digits_value 10 s2 of
                   Some (m, rest) \<Rightarrow> to_float (sign * scaled m 10 (exponent_of (CHR ''e'') rest))
                 | None \<Rightarrow> Inl InvalidArgument)))"

fun isqrt_bits :: "nat \<Rightarrow> int \<Rightarrow> int \<Rightarrow> int" where
  "isqrt_bits 0 acc t = acc"
| "isqrt_bits (Suc k) acc t =
     (let c = acc + 2 ^ k in isqrt_bits k (if c * c \<le> t then c else acc) t)"

fun sqrt32 :: "fval \<Rightarrow> fval" where
  "sqrt32 (Finite q) =
     (if q < 0 then NaN
      else if q = 0 then Finite 0
      else let u = pow2 (ilog2 q div 2 - 23);
               t = q / (u * u);
               m = isqrt_bits 24 0 \<lfloor>t\<rfloor>;
               half = of_int (m * m + m) + 1 / 4
           in Finite (of_int (if t < half \<or> (t = half \<and> even m) then m else m + 1) * u))"
| "sqrt32 PInf = PInf"
| "sqrt32 NInf = NaN"
| "sqrt32 NaN = NaN"

definition binary32_env :: env where
  "binary32_env =
     \<lparr>rnd = round32, stof = stof32, fsqrt = sqrt32,
      fresh_pos = (\<lambda>n. \<lparr>x_of = Finite 0, y_of = Finite 0, z_of = Finite 0\<rparr>)\<rparr>"

text \<open>
  A face line as a modeller writes it: the tag and three references in decimal
  notation, separated by single spaces.
\<close>

fun decimal :: "nat \<Rightarrow> string" where
  "decimal n =
     (if n < 10 then [char_of (48 + n)]
      else decimal (n div 10) @ [char_of (48 + n mod 10)])"

declare decimal.simps [simp del]

definition face_line :: "nat \<Rightarrow> nat \<Rightarrow> nat \<Rightarrow> string" where
  "face_line a b c = ''f '' @ decimal a @ '' '' @ decimal b @ '' '' @ decimal c"

section \<open>Device resources: creation, release and drawing\<close>

text \<open>
  The members of the renderer that the lifecycle touches. A \<^verbatim>\<open>ComPtr\<close> is a
  handle or null.
\<close>

type_synonym handle = nat

record renderer =
  m_loadingComplete :: bool
  m_usingVprtShaders :: bool
  m_vertexShader :: "handle option"
  m_inputLayout :: "handle option"
  m_pixelShader :: "handle option"
  m_geometryShader :: "handle option"
  m_modelConstantBuffer :: "handle option"
  m_vertexBuffer :: "handle option"
  m_indexBuffer :: "handle option"
  m_indexCount :: "32 word"

definition ReleaseDeviceDependentResources :: "renderer \<Rightarrow> renderer" where
  "ReleaseDeviceDependentResources r =
     r\<lparr>m_loadingComplete := False,
       m_usingVprtShaders := False,
       m_vertexShader := None,
       m_inputLayout := None,
       m_pixelShader := None,
       m_geometryShader := None,
       m_modelConstantBuffer := None,
       m_vertexBuffer := None,
       m_indexBuffer := None\<rparr>"

subsection \<open>Render (lines 97 to 166)\<close>

text \<open>
  The calls \<^verbatim>\<open>Render\<close> makes on the device context, in order, with the
  arguments that vary. The stride is \<^verbatim>\<open>sizeof(VertexPositionColor)\<close>, two
  \<^verbatim>\<open>XMFLOAT3\<close>.
\<close>

datatype command =
    IASetVertexBuffers "handle option" nat nat
  | IASetIndexBuffer "handle option"
  | IASetPrimitiveTopology
  | IASetInputLayout "handle option"
  | VSSetShader "handle option"
  | VSSetConstantBuffers "handle option"
  | GSSetShader "handle option"
  | PSSetShader "handle option"
  | DrawIndexedInstanced "32 word" nat nat nat nat

definition Render :: "renderer \<Rightarrow> command list" where
  "Render r =
     (if \<not> m_loadingComplete r then []
      else
        [IASetVertexBuffers (m_vertexBuffer r) 24 0,
         IASetIndexBuffer (m_indexBuffer r),
         IASetPrimitiveTopology,
         IASetInputLayout (m_inputLayout r),
         VSSetShader (m_vertexShader r),
         VSSetConstantBuffers (m_modelConstantBuffer r)]
        @ (if \<not> m_usingVprtShaders r then [GSSetShader (m_geometryShader r)] else [])
        @ [PSSetShader (m_pixelShader r),
           DrawIndexedInstanced (m_indexCount r) 2 0 0 0])"

fun is_draw :: "command \<Rightarrow> bool" where
  "is_draw (DrawIndexedInstanced n k a b c) = True"
| "is_draw _ = False"

subsection \<open>CreateDeviceDependentResources (lines 168 to 303)\<close>

text \<open>
  The function builds a graph of tasks and returns; the tasks run later. A task
  is pending, done, or faulted (its body threw). A continuation made with
  \<^verbatim>\<open>then\<close> that takes the value of its antecedent runs only once the antecedent
  is done, and the join \<^verbatim>\<open>&&\<close> is done once all its tasks are. The geometry
  shader tasks exist only when \<^verbatim>\<open>m_usingVprtShaders\<close> is false.
\<close>

datatype status = Pending | Done | Faulted

record tasks =
  loadVSTask :: status
  loadPSTask :: status
  loadGSTask :: "status option"
  createVSTask :: status
  createPSTask :: status
  createGSTask :: "status option"
  createOBJTask :: status
  completeTask :: status

definition CreateDeviceDependentResources :: "bool \<Rightarrow> renderer \<Rightarrow> renderer \<times> tasks" where
  "CreateDeviceDependentResources supportsVprt r =
     (r\<lparr>m_usingVprtShaders := supportsVprt\<rparr>,
      \<lparr>loadVSTask = Pending,
       loadPSTask = Pending,
       loadGSTask = (if \<not> supportsVprt then Some Pending else None),
       createVSTask = Pending,
       createPSTask = Pending,
       createGSTask = (if \<not> supportsVprt then Some Pending else None),
       createOBJTask = Pending,
       completeTask = Pending\<rparr>)"

text \<open>
  What happens next is an event: a file read ends (with the bytes or with an
  exception), or the scheduler runs a continuation whose antecedents are done.
  The answers of the device are part of the event: a handle, or \<open>None\<close> for a
  failed \<^verbatim>\<open>HRESULT\<close>, on which \<^verbatim>\<open>ThrowIfFailed\<close> throws and the task faults.
\<close>

datatype shader_file = VS | PS | GS

datatype event =
    FileLoaded shader_file
  | FileFailed shader_file
  | RunCreateVS "handle option" "handle option"
  | RunCreatePS "handle option" "handle option"
  | RunCreateGS "handle option"
  | RunCreateOBJ "handle option" "handle option"
  | RunComplete

definition finish_load :: "shader_file \<Rightarrow> status \<Rightarrow> tasks \<Rightarrow> tasks option" where
  "finish_load f s t =
     (case f of
        VS \<Rightarrow> if loadVSTask t = Pending then Some (t\<lparr>loadVSTask := s\<rparr>) else None
      | PS \<Rightarrow> if loadPSTask t = Pending then Some (t\<lparr>loadPSTask := s\<rparr>) else None
      | GS \<Rightarrow> if loadGSTask t = Some Pending then Some (t\<lparr>loadGSTask := Some s\<rparr>) else None)"

definition shaders_done :: "tasks \<Rightarrow> bool" where
  \<comment> \<open>the join \<^verbatim>\<open>shaderTaskGroup\<close>\<close>
  "shaders_done t =
     (createPSTask t = Done \<and> createVSTask t = Done \<and>
      (case createGSTask t of None \<Rightarrow> True | Some s \<Rightarrow> s = Done))"

fun fire :: "mesh \<Rightarrow> event \<Rightarrow> renderer \<times> tasks \<Rightarrow> (renderer \<times> tasks) option" where
  "fire m (FileLoaded f) (r, t) = map_option (Pair r) (finish_load f Done t)"
| "fire m (FileFailed f) (r, t) = map_option (Pair r) (finish_load f Faulted t)"
| "fire m (RunCreateVS shader layout) (r, t) =
     (if loadVSTask t = Done \<and> createVSTask t = Pending then
        (if shader = None then Some (r\<lparr>m_vertexShader := None\<rparr>, t\<lparr>createVSTask := Faulted\<rparr>)
         else if layout = None then
           Some (r\<lparr>m_vertexShader := shader, m_inputLayout := None\<rparr>, t\<lparr>createVSTask := Faulted\<rparr>)
         else Some (r\<lparr>m_vertexShader := shader, m_inputLayout := layout\<rparr>, t\<lparr>createVSTask := Done\<rparr>))
      else None)"
| "fire m (RunCreatePS shader buffer) (r, t) =
     (if loadPSTask t = Done \<and> createPSTask t = Pending then
        (if shader = None then Some (r\<lparr>m_pixelShader := None\<rparr>, t\<lparr>createPSTask := Faulted\<rparr>)
         else if buffer = None then
           Some (r\<lparr>m_pixelShader := shader, m_modelConstantBuffer := None\<rparr>, t\<lparr>createPSTask := Faulted\<rparr>)
         else Some (r\<lparr>m_pixelShader := shader, m_modelConstantBuffer := buffer\<rparr>, t\<lparr>createPSTask := Done\<rparr>))
      else None)"
| "fire m (RunCreateGS shader) (r, t) =
     (if loadGSTask t = Some Done \<and> createGSTask t = Some Pending then
        (if shader = None then Some (r\<lparr>m_geometryShader := None\<rparr>, t\<lparr>createGSTask := Some Faulted\<rparr>)
         else Some (r\<lparr>m_geometryShader := shader\<rparr>, t\<lparr>createGSTask := Some Done\<rparr>))
      else None)"
| "fire m (RunCreateOBJ vbuffer ibuffer) (r, t) =
     (if shaders_done t \<and> createOBJTask t = Pending then
        (if vbuffer = None then Some (r\<lparr>m_vertexBuffer := None\<rparr>, t\<lparr>createOBJTask := Faulted\<rparr>)
         else if ibuffer = None then
           Some (r\<lparr>m_vertexBuffer := vbuffer, m_indexCount := of_nat (length (indices m)),
                   m_indexBuffer := None\<rparr>, t\<lparr>createOBJTask := Faulted\<rparr>)
         else Some (r\<lparr>m_vertexBuffer := vbuffer, m_indexCount := of_nat (length (indices m)),
                      m_indexBuffer := ibuffer\<rparr>, t\<lparr>createOBJTask := Done\<rparr>))
      else None)"
| "fire m RunComplete (r, t) =
     (if createOBJTask t = Done \<and> completeTask t = Pending then
        Some (r\<lparr>m_loadingComplete := True\<rparr>, t\<lparr>completeTask := Done\<rparr>)
      else None)"

text \<open>An execution: events fired one after the other, each enabled where it fires.\<close>

fun run :: "mesh \<Rightarrow> event list \<Rightarrow> renderer \<times> tasks \<Rightarrow> (renderer \<times> tasks) option" where
  "run m [] s = Some s"
| "run m (e # es) s = (case fire m e s of None \<Rightarrow> None | Some s' \<Rightarrow> run m es s')"

text \<open>Every creation step that the load needs has completed.\<close>

definition creation_complete :: "tasks \<Rightarrow> bool" where
  "creation_complete t =
     (createVSTask t = Done \<and> createPSTask t = Done \<and>
      (case createGSTask t of None \<Rightarrow> True | Some s \<Rightarrow> s = Done) \<and>
      createOBJTask t = Done)"

text \<open>
  The invariant of the task graph that the ordering rests on: the flag is set
  by the last continuation only, which runs after the mesh task, which runs
  after the join of the shader tasks.
\<close>

definition load_invariant :: "bool \<Rightarrow> renderer \<times> tasks \<Rightarrow> bool" where
  "load_invariant supportsVprt s =
     (case s of (r, t) \<Rightarrow>
        (m_loadingComplete r \<longrightarrow> completeTask t = Done) \<and>
        (completeTask t = Done \<longrightarrow> createOBJTask t = Done) \<and>
        (createOBJTask t \<noteq> Pending \<longrightarrow> shaders_done t) \<and>
        (createGSTask t = None \<longleftrightarrow> supportsVprt))"

text \<open>A renderer in the state \<^verbatim>\<open>ReleaseDeviceDependentResources\<close> leaves it in.\<close>

definition released_renderer :: renderer where
  "released_renderer =
     \<lparr>m_loadingComplete = False, m_usingVprtShaders = False,
      m_vertexShader = None, m_inputLayout = None, m_pixelShader = None,
      m_geometryShader = None, m_modelConstantBuffer = None,
      m_vertexBuffer = None, m_indexBuffer = None, m_indexCount = 0\<rparr>"

section \<open>The arithmetic on known values\<close>

text \<open>
  The rounding on numbers whose binary32 neighbours are known: \<open>1 / 10\<close> is
  \<^verbatim>\<open>0x3DCCCCCD\<close>, \<open>2 ^ 24 + 1\<close> is a tie and goes to the even \<open>2 ^ 24\<close>, the
  largest binary32 number is \<open>2 ^ 128 - 2 ^ 104\<close>, half a unit above it
  overflows, and half of the smallest subnormal \<open>2 ^ -149\<close> goes to zero. The
  square root of 2 is \<^verbatim>\<open>0x3FB504F3\<close>.
\<close>

lemma round32_samples:
  "round32 (1 / 10) = Finite (13421773 / 134217728)"
  "round32 (- (1 / 3)) = Finite (- (11184811 / 33554432))"
  "round32 16777217 = Finite 16777216"
  "round32 16777219 = Finite 16777220"
  "round32 (pow2 128 - pow2 104) = Finite (pow2 128 - pow2 104)"
  "round32 (pow2 128 - pow2 103) = PInf"
  "round32 (pow2 (- 149)) = Finite (pow2 (- 149))"
  "round32 (pow2 (- 150)) = Finite 0"
  "round32 (3 * pow2 (- 150)) = Finite (pow2 (- 148))"
  by code_simp+

lemma sqrt32_samples:
  "sqrt32 (Finite 2) = Finite (11863283 / 8388608)"
  "sqrt32 (Finite 4) = Finite 2"
  "sqrt32 (Finite (1 / 4)) = Finite (1 / 2)"
  "sqrt32 (Finite (- 1)) = NaN"
  by code_simp+

text \<open>
  \<^verbatim>\<open>std::stof\<close> on tokens of each notation, on what is not a number, and on
  values beyond both ends of the range.
\<close>

lemma stof32_samples:
  "stof32 '' -2.5e1x'' = Inr (Finite (- 25))"
  "stof32 ''1e1'' = Inr (Finite 10)"
  "stof32 ''0x1.8p1'' = Inr (Finite 3)"
  "stof32 ''-inf'' = Inr NInf"
  "stof32 ''v'' = Inl InvalidArgument"
  "stof32 ''1e39'' = Inl OutOfRange"
  "stof32 ''1e-40'' = Inl OutOfRange"
  by code_simp+

section \<open>Properties of the reader\<close>

lemma and_then_Inr [simp]: "and_then (Inr v) f = f v"
  by (simp add: and_then_def)

lemma and_then_Inl [simp]: "and_then (Inl e) f = Inl e"
  by (simp add: and_then_def)

lemma throwing_simps [simp]:
  "throwing (Inr v) = Inr v" "throwing (Inl e) = Inl (Thrown e)"
  by (simp_all add: throwing_def)

lemma stoi_range: "stoi s = Inr n \<Longrightarrow> - (2 ^ 31) \<le> n \<and> n \<le> 2 ^ 31 - 1"
  by (auto simp: stoi_def Let_def split: if_splits)

lemma face_index_of_stoi:
  "stoi (takeWhile (\<lambda>c. c \<noteq> CHR ''/'') tok) = Inr n \<Longrightarrow> face_index tok = Inr (word_of_int n - 1)"
  by (simp add: face_index_def)

lemma parse_record_face:
  assumes "face_index t1 = Inr v1" "face_index t2 = Inr v2" "face_index t3 = Inr v3"
  shows "parse_record env st [''f'', t1, t2, t3] = Inr (st\<lparr>indices := indices st @ [v3, v2, v1]\<rparr>)"
  using assms by (simp add: parse_record_def parse_f_def subscript_def)

subsection \<open>A stream that is not open\<close>

text \<open>
  C8. When the stream is not open, \<^verbatim>\<open>parseOBJ\<close> returns at once, raises nothing
  and leaves both containers as they were: empty, when they were empty before
  the call, as they are when the constructor calls it.
\<close>

theorem parseOBJ_not_open:
  "parseOBJ env None st = Inr st \<and>
   parseOBJ env None empty_mesh = Inr \<lparr>vertices = [], indices = []\<rparr>"
  by (simp add: parseOBJ_def empty_mesh_def)

subsection \<open>Records with a wrong number of tokens\<close>

text \<open>
  C9. A line whose record starts with \<^verbatim>\<open>vn\<close> and has not exactly 4 tokens, or
  starts with \<^verbatim>\<open>v\<close> and has neither 4 nor 7 tokens, or starts with \<^verbatim>\<open>f\<close> and
  has not exactly 4 tokens, is skipped: the loop body ends without an error and
  with the vertex sequence and the index sequence unchanged.
\<close>

theorem wrong_token_count_skipped:
  assumes "rec = split_loop line []"
    and "(hd rec = ''vn'' \<and> length rec \<noteq> 4) \<or>
         (hd rec = ''v'' \<and> length rec \<noteq> 4 \<and> length rec \<noteq> 7) \<or>
         (hd rec = ''f'' \<and> length rec \<noteq> 4)"
  shows "parse_line env st line = Inr st"
proof (cases "line = [] \<or> CHR ''#'' \<in> set line")
  case True
  then show ?thesis by (simp add: parse_line_def)
next
  case False
  have "parse_record env st rec = Inr st"
  proof (cases rec)
    case Nil
    then show ?thesis by (simp add: parse_record_def)
  next
    case (Cons tag ts)
    with assms(2) show ?thesis
      by (auto simp: parse_record_def subscript_def parse_vn_def parse_v_def parse_f_def)
  qed
  with False assms(1) show ?thesis by (simp add: parse_line_def)
qed

theorem wrong_token_count_skipped_witness:
  "parse_line binary32_env empty_mesh ''vn 1.0 2.0'' = Inr empty_mesh"
proof -
  have r: "split_loop ''vn 1.0 2.0'' [] = [''vn'', ''1.0'', ''2.0'']" by code_simp
  show ?thesis
    by (rule wrong_token_count_skipped [where rec = "[''vn'', ''1.0'', ''2.0'']"])
       (simp_all only: r, simp)
qed

subsection \<open>Face records\<close>

lemma split_face_line:
  "split_loop ''f 1/2/3 4/5/6 7/8/9'' [] = [''f'', ''1/2/3'', ''4/5/6'', ''7/8/9'']"
  by code_simp

lemma face_index_samples:
  "face_index ''1/2/3'' = Inr 0" "face_index ''4/5/6'' = Inr 3" "face_index ''7/8/9'' = Inr 6"
  by code_simp+

text \<open>
  C2, as the code has it. The line \<^verbatim>\<open>f 1/2/3 4/5/6 7/8/9\<close> appends exactly the
  triple (6, 3, 0): the references 1, 4 and 7 that stand before the first
  slashes, reversed to 7, 4, 1, each less one.
\<close>

theorem face_line_slashes:
  "parse_line env st ''f 1/2/3 4/5/6 7/8/9'' = Inr (st\<lparr>indices := indices st @ [6, 3, 0]\<rparr>)"
proof -
  have "parse_line env st ''f 1/2/3 4/5/6 7/8/9'' =
        parse_record env st [''f'', ''1/2/3'', ''4/5/6'', ''7/8/9'']"
    unfolding parse_line_def split_face_line by simp
  then show ?thesis
    by (simp add: parse_record_face face_index_samples)
qed

text \<open>The triple (6, 4, 1) is not what the line appends.\<close>

theorem face_line_slashes_counterexample:
  "parse_line binary32_env empty_mesh ''f 1/2/3 4/5/6 7/8/9'' \<noteq>
   Inr (empty_mesh\<lparr>indices := indices empty_mesh @ [6, 4, 1]\<rparr>)"
proof -
  have "parse_line binary32_env empty_mesh ''f 1/2/3 4/5/6 7/8/9'' =
        parse_record binary32_env empty_mesh [''f'', ''1/2/3'', ''4/5/6'', ''7/8/9'']"
    unfolding parse_line_def split_face_line by simp
  then show ?thesis
    by (simp add: parse_record_face face_index_samples empty_mesh_def)
qed

lemma parse_line_face:
  assumes "line \<noteq> []" "CHR ''#'' \<notin> set line"
    and "split_loop line [] = [''f'', t1, t2, t3]"
    and "stoi (takeWhile (\<lambda>c. c \<noteq> CHR ''/'') t1) = Inr a"
    and "stoi (takeWhile (\<lambda>c. c \<noteq> CHR ''/'') t2) = Inr b"
    and "stoi (takeWhile (\<lambda>c. c \<noteq> CHR ''/'') t3) = Inr c"
  shows "parse_line env st line =
         Inr (st\<lparr>indices := indices st @ [word_of_int c - 1, word_of_int b - 1, word_of_int a - 1]\<rparr>)"
  using assms by (simp add: parse_line_def parse_record_face face_index_of_stoi)

lemma uint_reference:
  fixes n :: int
  assumes "1 \<le> n" "n \<le> 2 ^ 31 - 1"
  shows "uint (word_of_int (n - 1) :: 32 word) = n - 1"
proof -
  have "take_bit 32 (n - 1) = n - 1"
    using assms by (intro take_bit_int_eq_self) auto
  then show ?thesis
    unfolding uint_word_of_int_eq by simp
qed

text \<open>
  C3. A face line whose three references read as \<open>a\<close>, \<open>b\<close>, \<open>c\<close> in file
  order, each at least 1, appends exactly the triple \<open>c - 1\<close>, \<open>b - 1\<close>,
  \<open>a - 1\<close>, in that order: the winding is reversed, and nothing wraps.
\<close>

theorem face_winding_reversed:
  assumes "line \<noteq> []" "CHR ''#'' \<notin> set line"
    and "split_loop line [] = [''f'', t1, t2, t3]"
    and "stoi (takeWhile (\<lambda>c. c \<noteq> CHR ''/'') t1) = Inr a"
    and "stoi (takeWhile (\<lambda>c. c \<noteq> CHR ''/'') t2) = Inr b"
    and "stoi (takeWhile (\<lambda>c. c \<noteq> CHR ''/'') t3) = Inr c"
    and "1 \<le> a" "1 \<le> b" "1 \<le> c"
  shows "parse_line env st line =
           Inr (st\<lparr>indices := indices st @
                  [word_of_int (c - 1), word_of_int (b - 1), word_of_int (a - 1)]\<rparr>) \<and>
         uint (word_of_int (c - 1) :: 32 word) = c - 1 \<and>
         uint (word_of_int (b - 1) :: 32 word) = b - 1 \<and>
         uint (word_of_int (a - 1) :: 32 word) = a - 1"
proof -
  have "parse_line env st line =
        Inr (st\<lparr>indices := indices st @ [word_of_int c - 1, word_of_int b - 1, word_of_int a - 1]\<rparr>)"
    using assms(1-6) by (rule parse_line_face)
  moreover have "uint (word_of_int (c - 1) :: 32 word) = c - 1"
    using assms(6,9) stoi_range [of _ c] by (intro uint_reference) auto
  moreover have "uint (word_of_int (b - 1) :: 32 word) = b - 1"
    using assms(5,8) stoi_range [of _ b] by (intro uint_reference) auto
  moreover have "uint (word_of_int (a - 1) :: 32 word) = a - 1"
    using assms(4,7) stoi_range [of _ a] by (intro uint_reference) auto
  ultimately show ?thesis by simp
qed

theorem face_winding_reversed_witness:
  "parse_line binary32_env empty_mesh ''f 3/1 1 2'' = Inr (empty_mesh\<lparr>indices := [1, 0, 2]\<rparr>)"
proof -
  have s: "split_loop ''f 3/1 1 2'' [] = [''f'', ''3/1'', ''1'', ''2'']" by code_simp
  have a: "stoi (takeWhile (\<lambda>c. c \<noteq> CHR ''/'') ''3/1'') = Inr 3" by code_simp
  have b: "stoi (takeWhile (\<lambda>c. c \<noteq> CHR ''/'') ''1'') = Inr 1" by code_simp
  have c: "stoi (takeWhile (\<lambda>c. c \<noteq> CHR ''/'') ''2'') = Inr 2" by code_simp
  have "parse_line binary32_env empty_mesh ''f 3/1 1 2'' =
        Inr (empty_mesh\<lparr>indices := indices empty_mesh @
               [word_of_int (2 - 1), word_of_int (1 - 1), word_of_int (3 - 1)]\<rparr>)"
    using face_winding_reversed [OF _ _ s a b c, of binary32_env empty_mesh] by simp
  then show ?thesis by (simp add: empty_mesh_def)
qed

lemma uint_wrapped:
  "uint (word_of_int n - 1 :: 32 word) = (n - 1) mod 2 ^ 32"
proof -
  have eq: "(word_of_int n - 1 :: 32 word) = word_of_int (n - 1)" by simp
  show ?thesis
    unfolding eq uint_word_of_int_eq by (simp add: take_bit_eq_mod)
qed

text \<open>
  C10. The conversion to 0-based is the subtraction of \<^verbatim>\<open>UINT\<close>: a reference
  that reads as \<open>n\<close> is stored as \<open>(n - 1) mod 2 ^ 32\<close>, and nothing fails. A
  reference 0 is stored as 4294967295, the largest \<^verbatim>\<open>UINT\<close>.
\<close>

theorem zero_reference_wraps:
  assumes "line \<noteq> []" "CHR ''#'' \<notin> set line"
    and "split_loop line [] = [''f'', t1, t2, t3]"
    and "stoi (takeWhile (\<lambda>c. c \<noteq> CHR ''/'') t1) = Inr a"
    and "stoi (takeWhile (\<lambda>c. c \<noteq> CHR ''/'') t2) = Inr b"
    and "stoi (takeWhile (\<lambda>c. c \<noteq> CHR ''/'') t3) = Inr c"
  shows "parse_line env st line =
           Inr (st\<lparr>indices := indices st @
                  [word_of_int c - 1, word_of_int b - 1, word_of_int a - 1]\<rparr>) \<and>
         uint (word_of_int c - 1 :: 32 word) = (c - 1) mod 2 ^ 32 \<and>
         uint (word_of_int b - 1 :: 32 word) = (b - 1) mod 2 ^ 32 \<and>
         uint (word_of_int a - 1 :: 32 word) = (a - 1) mod 2 ^ 32 \<and>
         (word_of_int 0 - 1 :: 32 word) = 4294967295 \<and>
         unat (word_of_int 0 - 1 :: 32 word) = 2 ^ 32 - 1"
proof -
  have "parse_line env st line =
        Inr (st\<lparr>indices := indices st @ [word_of_int c - 1, word_of_int b - 1, word_of_int a - 1]\<rparr>)"
    using assms by (rule parse_line_face)
  moreover have "(word_of_int 0 - 1 :: 32 word) = 4294967295" by simp
  moreover have "unat (word_of_int 0 - 1 :: 32 word) = 2 ^ 32 - 1"
    by (simp add: unsigned_minus_1_eq_mask mask_eq_exp_minus_1)
  ultimately show ?thesis by (simp only: uint_wrapped simp_thms)
qed

theorem zero_reference_wraps_witness:
  "parse_line binary32_env empty_mesh ''f 0 2 3'' = Inr (empty_mesh\<lparr>indices := [2, 1, 4294967295]\<rparr>)"
proof -
  have s: "split_loop ''f 0 2 3'' [] = [''f'', ''0'', ''2'', ''3'']" by code_simp
  have a: "stoi (takeWhile (\<lambda>c. c \<noteq> CHR ''/'') ''0'') = Inr 0" by code_simp
  have b: "stoi (takeWhile (\<lambda>c. c \<noteq> CHR ''/'') ''2'') = Inr 2" by code_simp
  have c: "stoi (takeWhile (\<lambda>c. c \<noteq> CHR ''/'') ''3'') = Inr 3" by code_simp
  have "parse_line binary32_env empty_mesh ''f 0 2 3'' =
        Inr (empty_mesh\<lparr>indices := indices empty_mesh @
               [word_of_int 3 - 1, word_of_int 2 - 1, word_of_int 0 - 1]\<rparr>)"
    using zero_reference_wraps [OF _ _ s a b c, of binary32_env empty_mesh] by simp
  then show ?thesis by (simp add: empty_mesh_def)
qed

text \<open>
  The face lines that the theorem above speaks about exist for all references:
  a line written with decimal references from 1 to \<open>2 ^ 31 - 1\<close> is read back
  as those references.
\<close>

lemma digit_table:
  "list_all (\<lambda>k. isdigit (char_of (48 + k)) \<and> digit_value (char_of (48 + k)) = int k \<and>
      char_of (48 + k) \<noteq> CHR '' '' \<and> char_of (48 + k) \<noteq> CHR ''/'' \<and>
      char_of (48 + k) \<noteq> CHR ''#'' \<and> char_of (48 + k) \<noteq> CHR ''-'' \<and>
      char_of (48 + k) \<noteq> CHR ''+'' \<and> \<not> isspace (char_of (48 + k))) [0..<10 :: nat]"
  by code_simp

lemma digit_char:
  fixes k :: nat
  assumes "k < 10"
  shows "isdigit (char_of (48 + k))" and "digit_value (char_of (48 + k)) = int k"
    and "char_of (48 + k) \<noteq> CHR '' ''" and "char_of (48 + k) \<noteq> CHR ''/''"
    and "char_of (48 + k) \<noteq> CHR ''#''" and "char_of (48 + k) \<noteq> CHR ''-''"
    and "char_of (48 + k) \<noteq> CHR ''+''" and "\<not> isspace (char_of (48 + k))"
proof -
  from assms have "k \<in> set [0..<10]" by simp
  with digit_table have "isdigit (char_of (48 + k)) \<and> digit_value (char_of (48 + k)) = int k \<and>
      char_of (48 + k) \<noteq> CHR '' '' \<and> char_of (48 + k) \<noteq> CHR ''/'' \<and>
      char_of (48 + k) \<noteq> CHR ''#'' \<and> char_of (48 + k) \<noteq> CHR ''-'' \<and>
      char_of (48 + k) \<noteq> CHR ''+'' \<and> \<not> isspace (char_of (48 + k))"
    unfolding list_all_iff by blast
  then show "isdigit (char_of (48 + k))" and "digit_value (char_of (48 + k)) = int k"
    and "char_of (48 + k) \<noteq> CHR '' ''" and "char_of (48 + k) \<noteq> CHR ''/''"
    and "char_of (48 + k) \<noteq> CHR ''#''" and "char_of (48 + k) \<noteq> CHR ''-''"
    and "char_of (48 + k) \<noteq> CHR ''+''" and "\<not> isspace (char_of (48 + k))"
    by blast+
qed

lemma decimal_chars:
  "decimal n \<noteq> [] \<and> (\<forall>ch \<in> set (decimal n). \<exists>k :: nat. k < 10 \<and> ch = char_of (48 + k)) \<and>
   (\<exists>k :: nat. k < 10 \<and> hd (decimal n) = char_of (48 + k))"
proof (induction n rule: decimal.induct)
  case (1 n)
  show ?case
  proof (cases "n < 10")
    case True
    then show ?thesis by (subst (1 2 3) decimal.simps) auto
  next
    case False
    with "1.IH" have ih: "decimal (n div 10) \<noteq> []"
      "\<forall>ch \<in> set (decimal (n div 10)). \<exists>k :: nat. k < 10 \<and> ch = char_of (48 + k)"
      "\<exists>k :: nat. k < 10 \<and> hd (decimal (n div 10)) = char_of (48 + k)"
      by blast+
    have step: "decimal n = decimal (n div 10) @ [char_of (48 + n mod 10)]"
      using False by (subst decimal.simps) simp
    have "n mod 10 < 10" by simp
    with ih show ?thesis unfolding step by (auto simp del: mod_less_divisor)
  qed
qed

lemma digits_value_snoc: "digits_value (ds @ [ch]) = 10 * digits_value ds + digit_value ch"
  by (simp add: digits_value_def)

lemma digits_value_decimal: "digits_value (decimal n) = int n"
proof (induction n rule: decimal.induct)
  case (1 n)
  show ?case
  proof (cases "n < 10")
    case True
    then show ?thesis
      by (subst decimal.simps) (simp add: digits_value_def digit_char)
  next
    case False
    have step: "decimal n = decimal (n div 10) @ [char_of (48 + n mod 10)]"
      using False by (subst decimal.simps) simp
    have "digits_value (decimal n) = 10 * int (n div 10) + int (n mod 10)"
      unfolding step digits_value_snoc using "1.IH" [OF False] by (simp add: digit_char)
    also have "\<dots> = int n" by (simp add: zdiv_int zmod_int)
    finally show ?thesis .
  qed
qed

lemma stoi_decimal:
  assumes "n \<le> 2 ^ 31 - 1"
  shows "stoi (takeWhile (\<lambda>c. c \<noteq> CHR ''/'') (decimal n)) = Inr (int n)"
proof -
  note chars = decimal_chars [of n]
  from chars have no_slash: "takeWhile (\<lambda>c. c \<noteq> CHR ''/'') (decimal n) = decimal n"
    using digit_char(4) by (fastforce simp: takeWhile_eq_all_conv)
  from chars obtain k :: nat where k: "k < 10" "hd (decimal n) = char_of (48 + k)" by blast
  from chars k have no_space: "dropWhile isspace (decimal n) = decimal n"
    by (cases "decimal n") (auto simp: digit_char)
  from chars have all_digits: "takeWhile isdigit (decimal n) = decimal n"
    by (auto simp: takeWhile_eq_all_conv digit_char)
  from assms have "n < 2 ^ 31" by simp
  then have "int n < 2 ^ 31" by (simp only: of_nat_less_numeral_power_cancel_iff)
  then have "int n \<le> 2 ^ 31 - 1" by simp
  with chars k show ?thesis
    unfolding no_slash stoi_def no_space
    by (simp add: Let_def digit_char all_digits digits_value_decimal)
qed

lemma getline_token:
  assumes "CHR '' '' \<notin> set tok"
  shows "getline (CHR '' '') (tok @ CHR '' '' # rest) = Some (tok, rest)"
proof -
  from assms have all: "\<And>x. x \<in> set tok \<Longrightarrow> x \<noteq> CHR '' ''" by auto
  have "takeWhile (\<lambda>c. c \<noteq> CHR '' '') (tok @ CHR '' '' # rest) = tok"
    by (subst takeWhile_append2) (simp_all add: all)
  moreover have "dropWhile (\<lambda>c. c \<noteq> CHR '' '') (tok @ CHR '' '' # rest) = CHR '' '' # rest"
    by (subst dropWhile_append2) (simp_all add: all)
  ultimately show ?thesis by (simp add: getline_def)
qed

lemma split_loop_token:
  "CHR '' '' \<notin> set tok \<Longrightarrow> split_loop (tok @ CHR '' '' # rest) acc = split_loop rest (acc @ [tok])"
  by (subst split_loop.simps) (simp add: getline_token)

lemma split_loop_last:
  assumes "tok \<noteq> []" "CHR '' '' \<notin> set tok"
  shows "split_loop tok acc = acc @ [tok]"
proof -
  from assms(2) have all: "\<forall>x \<in> set tok. x \<noteq> CHR '' ''" by auto
  then have tw: "takeWhile (\<lambda>c. c \<noteq> CHR '' '') tok = tok"
    and dw: "dropWhile (\<lambda>c. c \<noteq> CHR '' '') tok = []"
    by simp_all
  have "getline (CHR '' '') tok = Some (tok, [])"
    unfolding getline_def tw dw using assms(1) by simp
  then have "split_loop tok acc = split_loop [] (acc @ [tok])"
    by (subst split_loop.simps) simp
  also have "\<dots> = acc @ [tok]"
    by (subst split_loop.simps) (simp add: getline_def)
  finally show ?thesis .
qed

lemma decimal_no_space: "CHR '' '' \<notin> set (decimal n)"
  using decimal_chars [of n] digit_char(3) by fastforce

lemma decimal_no_hash: "CHR ''#'' \<notin> set (decimal n)"
  using decimal_chars [of n] digit_char(5) by fastforce

lemma split_face_line_decimal:
  "split_loop (face_line a b c) [] = [''f'', decimal a, decimal b, decimal c]"
proof -
  have "split_loop (face_line a b c) [] =
        split_loop (decimal a @ CHR '' '' # decimal b @ CHR '' '' # decimal c) [''f'']"
    using split_loop_token [of "''f''" "decimal a @ CHR '' '' # decimal b @ CHR '' '' # decimal c" "[]"]
    by (simp add: face_line_def)
  also have "\<dots> = split_loop (decimal b @ CHR '' '' # decimal c) [''f'', decimal a]"
    by (simp add: split_loop_token decimal_no_space)
  also have "\<dots> = split_loop (decimal c) [''f'', decimal a, decimal b]"
    by (simp add: split_loop_token decimal_no_space)
  also have "\<dots> = [''f'', decimal a, decimal b, decimal c]"
    using decimal_chars [of c] split_loop_last [of "decimal c" "[''f'', decimal a, decimal b]"]
    by (simp add: decimal_no_space)
  finally show ?thesis .
qed

lemma face_line_decimal:
  assumes "1 \<le> a" "a \<le> 2 ^ 31 - 1" "1 \<le> b" "b \<le> 2 ^ 31 - 1" "1 \<le> c" "c \<le> 2 ^ 31 - 1"
  shows "parse_line env st (face_line a b c) =
         Inr (st\<lparr>indices := indices st @ [of_nat (c - 1), of_nat (b - 1), of_nat (a - 1)]\<rparr>)"
proof -
  have "face_line a b c \<noteq> []" "CHR ''#'' \<notin> set (face_line a b c)"
    by (simp_all add: face_line_def decimal_no_hash)
  from parse_line_face [OF this split_face_line_decimal
      stoi_decimal [OF assms(2)] stoi_decimal [OF assms(4)] stoi_decimal [OF assms(6)]]
  have "parse_line env st (face_line a b c) =
        Inr (st\<lparr>indices := indices st @
               [word_of_int (int c) - 1, word_of_int (int b) - 1, word_of_int (int a) - 1]\<rparr>)" .
  moreover have "(word_of_int (int n) - 1 :: 32 word) = of_nat (n - 1)" if "1 \<le> n" for n
    using that by (simp add: of_nat_diff)
  ultimately show ?thesis using assms by simp
qed

subsection \<open>Sequence accesses\<close>

lemma parse_line_record: "parse_line env st line = parse_record env st (record_of line)"
  by (simp add: parse_line_def record_of_def parse_record_def)

lemma read_loop_lines: "read_loop env content st = parse_lines env st (file_lines content)"
proof (induction env content st rule: read_loop.induct)
  case (1 env content st)
  show ?case
  proof (cases "getline (CHR 0x0A) content")
    case None
    then show ?thesis
      by (simp add: read_loop.simps [of env content] file_lines.simps [of content])
  next
    case (Some got)
    obtain line rest where got: "(line, rest) = got" by (cases got) auto
    have unfold_loop: "read_loop env content st =
        (case parse_line env st line of Inl e \<Rightarrow> Inl e | Inr st' \<Rightarrow> read_loop env rest st')"
      by (subst read_loop.simps) (simp add: Some got [symmetric])
    have unfold_lines: "file_lines content = line # file_lines rest"
      by (subst file_lines.simps) (simp add: Some got [symmetric])
    show ?thesis
    proof (cases "parse_line env st line")
      case (Inl e)
      then show ?thesis by (simp add: unfold_loop unfold_lines)
    next
      case (Inr st')
      from "1.IH" [OF Some got Inr] Inr show ?thesis
        by (simp add: unfold_loop unfold_lines)
    qed
  qed
qed

lemma throwing_defined: "throwing r \<noteq> Inl (Undefined u)"
  by (cases r) simp_all

lemma and_then_undefined:
  "and_then r f = Inl (Undefined u) \<longleftrightarrow>
   r = Inl (Undefined u) \<or> (\<exists>v. r = Inr v \<and> f v = Inl (Undefined u))"
  by (cases r) simp_all

lemma stof_at_in_bounds: "i < length rec \<Longrightarrow> stof_at env rec i = throwing (stof env (rec ! i))"
  by (simp add: stof_at_def subscript_def)

lemma stof_at_defined: "i < length rec \<Longrightarrow> stof_at env rec i \<noteq> Inl (Undefined u)"
  by (simp add: stof_at_in_bounds throwing_defined)

lemma face_index_defined: "face_index tok \<noteq> Inl (Undefined u)"
  by (simp add: face_index_def and_then_undefined throwing_defined)

lemma parse_vn_defined: "parse_vn env st rec \<noteq> Inl (Undefined u)"
  by (simp add: parse_vn_def Let_def and_then_undefined stof_at_defined)

lemma parse_f_defined: "parse_f st rec \<noteq> Inl (Undefined u)"
  by (simp add: parse_f_def subscript_def and_then_undefined face_index_defined)

lemma set_back_pos_undefined:
  "set_back_pos p vs = Inl (Undefined u) \<longleftrightarrow> vs = [] \<and> u = BackOfEmpty"
  by (auto simp: set_back_pos_def)

lemma parse_v_undefined:
  assumes "parse_v env st rec = Inl (Undefined u)"
  shows "vertices st = [] \<and> u = BackOfEmpty"
proof (cases "length rec = 7")
  case True
  with assms show ?thesis
    by (simp add: parse_v_def and_then_undefined stof_at_defined set_back_pos_undefined)
next
  case False
  show ?thesis
  proof (cases "length rec = 4")
    case True
    with assms show ?thesis
      by (simp add: parse_v_def and_then_undefined stof_at_defined set_back_pos_undefined)
  next
    case False
    with \<open>length rec \<noteq> 7\<close> assms show ?thesis
      by (simp add: parse_v_def)
  qed
qed

lemma parse_v_skips:
  "length rec \<noteq> 4 \<Longrightarrow> length rec \<noteq> 7 \<Longrightarrow> parse_v env st rec = Inr st"
  by (simp add: parse_v_def)

lemma parse_record_undefined:
  assumes "parse_record env st rec = Inl (Undefined u)"
  shows "is_v_record rec \<and> vertices st = [] \<and> u = BackOfEmpty"
proof (cases rec)
  case Nil
  with assms show ?thesis by (simp add: parse_record_def)
next
  case (Cons tag ts)
  with assms have v: "tag = ''v''" and pv: "parse_v env st rec = Inl (Undefined u)"
    by (auto simp: parse_record_def subscript_def parse_vn_defined parse_f_defined
        split: if_splits)
  from pv have "length rec = 4 \<or> length rec = 7"
    using parse_v_skips [of rec env st] by auto
  with v Cons parse_v_undefined [OF pv] show ?thesis
    by (simp add: is_v_record_def)
qed

lemma set_back_pos_nonempty: "set_back_pos p vs = Inr vs' \<Longrightarrow> vs' \<noteq> []"
  by (auto simp: set_back_pos_def split: if_splits)

lemma and_then_Inr_iff:
  "and_then r f = Inr w \<longleftrightarrow> (\<exists>v. r = Inr v \<and> f v = Inr w)"
  by (cases r) simp_all

lemma parse_vn_vertices:
  assumes "parse_vn env st rec = Inr st'"
  shows "(vertices st \<noteq> [] \<longrightarrow> vertices st' \<noteq> []) \<and> (length rec = 4 \<longrightarrow> vertices st' \<noteq> [])"
proof (cases "length rec = 4")
  case True
  with assms show ?thesis
    by (auto simp: parse_vn_def Let_def and_then_Inr_iff)
next
  case False
  with assms show ?thesis by (simp add: parse_vn_def)
qed

lemma parse_v_vertices:
  assumes "parse_v env st rec = Inr st'" "vertices st \<noteq> []"
  shows "vertices st' \<noteq> []"
proof (cases "length rec = 7")
  case True
  with assms show ?thesis
    by (auto simp: parse_v_def and_then_Inr_iff dest: set_back_pos_nonempty)
next
  case False
  show ?thesis
  proof (cases "length rec = 4")
    case True
    with assms show ?thesis
      by (auto simp: parse_v_def and_then_Inr_iff dest: set_back_pos_nonempty)
  next
    case False
    with \<open>length rec \<noteq> 7\<close> assms show ?thesis
      by (simp add: parse_v_def)
  qed
qed

lemma parse_f_vertices: "parse_f st rec = Inr st' \<Longrightarrow> vertices st' = vertices st"
  by (cases "length rec = 4") (auto simp: parse_f_def and_then_Inr_iff)

lemma parse_record_vertices:
  assumes "parse_record env st rec = Inr st'"
  shows "(vertices st \<noteq> [] \<longrightarrow> vertices st' \<noteq> []) \<and> (is_vn_record rec \<longrightarrow> vertices st' \<noteq> [])"
proof (cases rec)
  case Nil
  with assms show ?thesis by (simp add: parse_record_def is_vn_record_def)
next
  case (Cons tag ts)
  consider "tag = ''vn''" | "tag \<noteq> ''vn''" "tag = ''v''" | "tag \<noteq> ''vn''" "tag \<noteq> ''v''" "tag = ''f''"
    | "tag \<noteq> ''vn''" "tag \<noteq> ''v''" "tag \<noteq> ''f''" by blast
  then show ?thesis
  proof cases
    case 1
    with assms Cons have "parse_vn env st rec = Inr st'"
      by (simp add: parse_record_def subscript_def)
    from parse_vn_vertices [OF this] show ?thesis by (simp add: is_vn_record_def)
  next
    case 2
    with assms Cons have "parse_v env st rec = Inr st'"
      by (simp add: parse_record_def subscript_def)
    with 2 Cons show ?thesis by (auto simp: is_vn_record_def dest: parse_v_vertices)
  next
    case 3
    with assms Cons have "parse_f st rec = Inr st'"
      by (simp add: parse_record_def subscript_def)
    with 3 Cons show ?thesis by (auto simp: is_vn_record_def dest: parse_f_vertices)
  next
    case 4
    with assms Cons show ?thesis
      by (simp add: parse_record_def subscript_def is_vn_record_def)
  qed
qed

lemma v_preceded_mono: "v_preceded a recs \<Longrightarrow> (a \<longrightarrow> b) \<Longrightarrow> v_preceded b recs"
  by (induction recs arbitrary: a b) (auto split: if_splits)

lemma v_preceded_step_v:
  "is_v_record rec \<Longrightarrow> v_preceded seen (rec # recs) \<Longrightarrow> seen \<and> v_preceded seen recs"
  by (cases seen) simp_all

lemma v_preceded_step_other:
  "\<not> is_v_record rec \<Longrightarrow> v_preceded seen (rec # recs) \<Longrightarrow>
   v_preceded (seen \<or> is_vn_record rec) recs"
  by simp

lemma parse_lines_defined:
  "v_preceded (vertices st \<noteq> []) (map record_of ls) \<Longrightarrow> parse_lines env st ls \<noteq> Inl (Undefined u)"
proof (induction ls arbitrary: st)
  case Nil
  then show ?case by simp
next
  case (Cons line ls)
  let ?rec = "record_of line"
  show ?case
  proof (cases "parse_record env st ?rec")
    case (Inl e)
    have "e \<noteq> Undefined u"
    proof
      assume "e = Undefined u"
      with Inl have "is_v_record ?rec \<and> vertices st = []"
        using parse_record_undefined [of env st ?rec u] by simp
      with Cons.prems show False by simp
    qed
    with Inl show ?thesis by (simp add: parse_line_record)
  next
    case (Inr st')
    note grows = parse_record_vertices [OF Inr]
    from Cons.prems have pre: "v_preceded (vertices st \<noteq> []) (?rec # map record_of ls)"
      by (simp only: list.map)
    have "v_preceded (vertices st' \<noteq> []) (map record_of ls)"
    proof (cases "is_v_record ?rec")
      case True
      from v_preceded_step_v [OF True pre]
      have ne: "vertices st \<noteq> []" and vp: "v_preceded (vertices st \<noteq> []) (map record_of ls)"
        by blast+
      from vp show ?thesis by (rule v_preceded_mono) (use ne grows in blast)
    next
      case False
      from v_preceded_step_other [OF False pre]
      show ?thesis by (rule v_preceded_mono) (use grows in blast)
    qed
    then have "parse_lines env st' ls \<noteq> Inl (Undefined u)" by (rule Cons.IH)
    with Inr show ?thesis by (simp add: parse_line_record)
  qed
qed


lemma max_pos_nonempty: "vs \<noteq> [] \<Longrightarrow> \<exists>m. max_pos ax vs = Inr m"
  by (cases vs) (simp_all add: max_pos_def max_element_def deref_def)

lemma min_pos_nonempty: "vs \<noteq> [] \<Longrightarrow> \<exists>m. min_pos ax vs = Inr m"
  by (cases vs) (simp_all add: min_pos_def min_element_def deref_def)

lemma center_and_scale_empty: "center_and_scale rd [] = Inl (Undefined DerefEnd)"
  by (simp add: center_and_scale_def max_pos_def max_element_def deref_def)

text \<open>
  The final loop: every \<^verbatim>\<open>vertices[i]\<close> of its body is reached with \<open>i\<close> below
  the size, and the loop is the map of its body over the vertices.
\<close>

lemma modify_in_bounds: "i < length xs \<Longrightarrow> modify i g xs = Inr (xs[i := g (xs ! i)])"
  by (simp add: modify_def subscript_def)

lemma run_steps_in_bounds:
  "i < length xs \<Longrightarrow> run_steps i gs xs = Inr (xs[i := fold (\<lambda>g. g) gs (xs ! i)])"
  by (induction gs arbitrary: xs) (simp_all add: modify_in_bounds)

lemma scale_loop_from:
  "i \<le> length vs \<Longrightarrow>
   scale_loop steps i vs = Inr (take i vs @ map (fold (\<lambda>g. g) steps) (drop i vs))"
proof (induction steps i vs rule: scale_loop.induct)
  case (1 steps i vs)
  let ?f = "fold (\<lambda>g. g) steps"
  show ?case
  proof (cases "i < length vs")
    case True
    let ?ws = "vs[i := ?f (vs ! i)]"
    have run: "run_steps i steps vs = Inr ?ws"
      using True by (rule run_steps_in_bounds)
    have "scale_loop steps i vs = scale_loop steps (i + 1) ?ws"
      by (subst scale_loop.simps) (simp add: True run)
    also have "\<dots> = Inr (take (i + 1) ?ws @ map ?f (drop (i + 1) ?ws))"
      using "1.IH" [OF True run] True by simp
    also have "take (i + 1) ?ws = take i vs @ [?f (vs ! i)]"
      using True by (simp add: take_Suc_conv_app_nth)
    also have "drop (i + 1) ?ws = drop (i + 1) vs"
      by simp
    also have "(take i vs @ [?f (vs ! i)]) @ map ?f (drop (i + 1) vs) = take i vs @ map ?f (drop i vs)"
      using True by (simp add: Cons_nth_drop_Suc [symmetric])
    finally show ?thesis .
  next
    case False
    with "1.prems" show ?thesis
      by (subst scale_loop.simps) simp
  qed
qed

lemma scale_loop_map: "scale_loop steps 0 vs = Inr (map (fold (\<lambda>g. g) steps) vs)"
  by (simp add: scale_loop_from)

lemma center_and_scale_nonempty:
  assumes "vs \<noteq> []"
  shows "\<exists>out. center_and_scale rd vs = Inr out"
proof -
  from assms obtain maxX maxY maxZ minX minY minZ where
    "max_pos x_of vs = Inr maxX" "max_pos y_of vs = Inr maxY" "max_pos z_of vs = Inr maxZ"
    "min_pos x_of vs = Inr minX" "min_pos y_of vs = Inr minY" "min_pos z_of vs = Inr minZ"
    using max_pos_nonempty min_pos_nonempty by metis
  then show ?thesis
    by (simp add: center_and_scale_def Let_def scale_loop_map)
qed

lemma parse_v_back_of_empty:
  assumes "is_v_record rec" "vertices st = []"
    and "\<forall>tok \<in> set (tl rec). \<exists>v. stof env tok = Inr v"
  shows "parse_record env st rec = Inl (Undefined BackOfEmpty)"
proof -
  from assms(1) obtain ts where rec: "rec = ''v'' # ts" and len: "length ts = 3 \<or> length ts = 6"
    by (cases rec) (auto simp: is_v_record_def)
  have tok: "\<exists>v. stof_at env rec i = Inr v" if "1 \<le> i" "i < length rec" for i
  proof -
    from that rec have "rec ! i \<in> set (tl rec)"
      by (cases i) auto
    with assms(3) obtain v where "stof env (rec ! i) = Inr v" by blast
    with that show ?thesis by (simp add: stof_at_in_bounds)
  qed
  have dispatch: "parse_record env st rec = parse_v env st rec"
    using rec by (simp add: parse_record_def subscript_def)
  from len show ?thesis
  proof
    assume l: "length ts = 3"
    with rec tok [of 1] tok [of 2] tok [of 3] obtain x y z where
      "stof_at env rec 1 = Inr x" "stof_at env rec 2 = Inr y" "stof_at env rec 3 = Inr z"
      by auto
    with l rec assms(2) show ?thesis
      unfolding dispatch by (simp add: parse_v_def set_back_pos_def)
  next
    assume l: "length ts = 6"
    with rec tok [of 1] tok [of 2] tok [of 3] tok [of 4] tok [of 5] tok [of 6]
    obtain x y z r g b where
      "stof_at env rec 1 = Inr x" "stof_at env rec 2 = Inr y" "stof_at env rec 3 = Inr z"
      "stof_at env rec 4 = Inr r" "stof_at env rec 5 = Inr g" "stof_at env rec 6 = Inr b"
      by auto
    with l rec assms(2) show ?thesis
      unfolding dispatch by (simp add: parse_v_def set_back_pos_def)
  qed
qed

text \<open>
  C5, as the code has it. When every \<^verbatim>\<open>v\<close> record with 4 or 7 tokens comes
  after a vertex, and the vertex sequence is not empty when the reading loop
  ends, \<^verbatim>\<open>parseOBJ\<close> reaches none of its undefined operations: no \<^verbatim>\<open>back()\<close> of
  an empty vector, no read through an end iterator, no subscript out of
  bounds, of a record or, in the final loop, of the vertex sequence. Without
  that, nothing fails fast: a \<^verbatim>\<open>v\<close> record whose numbers parse,
  met while the vertex sequence is empty, runs \<^verbatim>\<open>back()\<close> on the empty vector,
  and a reading loop that ends with an empty vertex sequence is followed by a
  read through the end iterator of \<^verbatim>\<open>max_element\<close>. Both are undefined
  behaviour.
\<close>

theorem sequence_accesses:
  "(v_preceded (vertices st \<noteq> []) (map record_of (file_lines content)) \<and>
      (\<forall>st1. read_loop env content st = Inr st1 \<longrightarrow> vertices st1 \<noteq> []) \<longrightarrow>
        (\<forall>u. parseOBJ env (Some content) st \<noteq> Inl (Undefined u))) \<and>
   (is_v_record (record_of line) \<and> vertices st = [] \<and>
      (\<forall>tok \<in> set (tl (record_of line)). \<exists>v. stof env tok = Inr v) \<longrightarrow>
        parse_line env st line = Inl (Undefined BackOfEmpty)) \<and>
   (read_loop env content st = Inr st1 \<and> vertices st1 = [] \<longrightarrow>
        parseOBJ env (Some content) st = Inl (Undefined DerefEnd))"
proof (intro conjI impI allI)
  fix u
  assume pre: "v_preceded (vertices st \<noteq> []) (map record_of (file_lines content)) \<and>
      (\<forall>st1. read_loop env content st = Inr st1 \<longrightarrow> vertices st1 \<noteq> [])"
  then have loop: "read_loop env content st \<noteq> Inl (Undefined u)"
    by (simp add: read_loop_lines parse_lines_defined)
  show "parseOBJ env (Some content) st \<noteq> Inl (Undefined u)"
  proof (cases "read_loop env content st")
    case (Inl e)
    with loop show ?thesis by (simp add: parseOBJ_def)
  next
    case (Inr st1)
    with pre have "vertices st1 \<noteq> []" by blast
    then obtain out where "center_and_scale (rnd env) (vertices st1) = Inr out"
      using center_and_scale_nonempty by blast
    with Inr show ?thesis by (simp add: parseOBJ_def)
  qed
next
  assume "is_v_record (record_of line) \<and> vertices st = [] \<and>
      (\<forall>tok \<in> set (tl (record_of line)). \<exists>v. stof env tok = Inr v)"
  then show "parse_line env st line = Inl (Undefined BackOfEmpty)"
    by (simp add: parse_line_record parse_v_back_of_empty)
next
  assume "read_loop env content st = Inr st1 \<and> vertices st1 = []"
  then show "parseOBJ env (Some content) st = Inl (Undefined DerefEnd)"
    by (simp add: parseOBJ_def center_and_scale_empty)
qed

theorem sequence_accesses_witness:
  "(\<forall>u. parseOBJ binary32_env (Some ''vn 0 0 1\<newline>v 1 2 3\<newline>f 1 1 1\<newline>'') empty_mesh \<noteq> Inl (Undefined u)) \<and>
   parse_line binary32_env empty_mesh ''v 1 2 3'' = Inl (Undefined BackOfEmpty) \<and>
   parseOBJ binary32_env (Some ''f 1 1 1'') empty_mesh = Inl (Undefined DerefEnd)"
proof -
  let ?good = "''vn 0 0 1\<newline>v 1 2 3\<newline>f 1 1 1\<newline>''"
  have p1: "v_preceded (vertices empty_mesh \<noteq> []) (map record_of (file_lines ?good))"
    by code_simp
  have "case read_loop binary32_env ?good empty_mesh of Inl e \<Rightarrow> True | Inr st1 \<Rightarrow> vertices st1 \<noteq> []"
    by code_simp
  then have p2: "\<forall>st1. read_loop binary32_env ?good empty_mesh = Inr st1 \<longrightarrow> vertices st1 \<noteq> []"
    by (auto split: sum.splits)
  have q1: "is_v_record (record_of ''v 1 2 3'')" by code_simp
  have q2: "vertices empty_mesh = []" by (simp add: empty_mesh_def)
  have parsed: "list_all (\<lambda>tok. case stof binary32_env tok of Inl e \<Rightarrow> False | Inr v \<Rightarrow> True)
      (tl (record_of ''v 1 2 3''))"
    by code_simp
  have q3: "\<forall>tok \<in> set (tl (record_of ''v 1 2 3'')). \<exists>v. stof binary32_env tok = Inr v"
  proof
    fix tok
    assume "tok \<in> set (tl (record_of ''v 1 2 3''))"
    with parsed have "case stof binary32_env tok of Inl e \<Rightarrow> False | Inr v \<Rightarrow> True"
      by (simp add: list_all_iff)
    then show "\<exists>v. stof binary32_env tok = Inr v"
      by (cases "stof binary32_env tok") simp_all
  qed
  have "case read_loop binary32_env ''f 1 1 1'' empty_mesh of Inl e \<Rightarrow> False | Inr st1 \<Rightarrow> vertices st1 = []"
    by code_simp
  then obtain st1 where r1: "read_loop binary32_env ''f 1 1 1'' empty_mesh = Inr st1" and r2: "vertices st1 = []"
    by (auto split: sum.splits)
  from sequence_accesses [of empty_mesh ?good binary32_env "''v 1 2 3''" st1] p1 p2
  have a: "\<forall>u. parseOBJ binary32_env (Some ?good) empty_mesh \<noteq> Inl (Undefined u)" by blast
  from sequence_accesses [of empty_mesh ?good binary32_env "''v 1 2 3''" st1] q1 q2 q3
  have b: "parse_line binary32_env empty_mesh ''v 1 2 3'' = Inl (Undefined BackOfEmpty)" by blast
  from sequence_accesses [of empty_mesh "''f 1 1 1''" binary32_env "''v 1 2 3''" st1] r1 r2
  have c: "parseOBJ binary32_env (Some ''f 1 1 1'') empty_mesh = Inl (Undefined DerefEnd)" by blast
  from a b c show ?thesis by blast
qed

text \<open>
  A file that is one \<^verbatim>\<open>v\<close> record, and a file that is one face: neither ends
  in an exception.
\<close>

theorem sequence_accesses_counterexample:
  "\<not> fails_fast (parseOBJ binary32_env (Some ''v 1 2 3'') empty_mesh) \<and>
   \<not> fails_fast (parseOBJ binary32_env (Some ''f 1 1 1'') empty_mesh)"
proof -
  have "parseOBJ binary32_env (Some ''v 1 2 3'') empty_mesh = Inl (Undefined BackOfEmpty)"
    by code_simp
  moreover have "parseOBJ binary32_env (Some ''f 1 1 1'') empty_mesh = Inl (Undefined DerefEnd)"
    by code_simp
  ultimately show ?thesis by (simp add: fails_fast_def)
qed

section \<open>Properties of the device resources\<close>

text \<open>
  C7. \<^verbatim>\<open>Render\<close> issues no call at all while the flag is false. When the flag
  is true it binds the vertex buffer, the index buffer, the input layout, the
  vertex shader and the pixel shader, binds a geometry shader exactly when
  \<^verbatim>\<open>m_usingVprtShaders\<close> is false, and ends with the one draw it submits, an
  indexed draw of 2 instances.
\<close>

theorem Render_commands:
  "(\<not> m_loadingComplete r \<longrightarrow> Render r = []) \<and>
   (m_loadingComplete r \<longrightarrow>
      IASetVertexBuffers (m_vertexBuffer r) 24 0 \<in> set (Render r) \<and>
      IASetIndexBuffer (m_indexBuffer r) \<in> set (Render r) \<and>
      IASetInputLayout (m_inputLayout r) \<in> set (Render r) \<and>
      VSSetShader (m_vertexShader r) \<in> set (Render r) \<and>
      PSSetShader (m_pixelShader r) \<in> set (Render r) \<and>
      (GSSetShader (m_geometryShader r) \<in> set (Render r) \<longleftrightarrow> \<not> m_usingVprtShaders r) \<and>
      (\<forall>h. GSSetShader h \<in> set (Render r) \<longrightarrow> \<not> m_usingVprtShaders r) \<and>
      filter is_draw (Render r) = [DrawIndexedInstanced (m_indexCount r) 2 0 0 0] \<and>
      last (Render r) = DrawIndexedInstanced (m_indexCount r) 2 0 0 0)"
  by (simp add: Render_def)

theorem Render_commands_witness:
  "Render released_renderer = [] \<and>
   filter is_draw (Render (released_renderer\<lparr>m_loadingComplete := True, m_indexCount := 36\<rparr>)) =
     [DrawIndexedInstanced 36 2 0 0 0] \<and>
   GSSetShader None \<in> set (Render (released_renderer\<lparr>m_loadingComplete := True, m_indexCount := 36\<rparr>))"
  using Render_commands [of released_renderer]
    Render_commands [of "released_renderer\<lparr>m_loadingComplete := True, m_indexCount := 36\<rparr>"]
  by (simp add: released_renderer_def)

lemma fire_load_invariant:
  assumes "load_invariant caps s" "fire m e s = Some s'"
  shows "load_invariant caps s'"
proof (cases s)
  case (Pair r t)
  show ?thesis
  proof (cases e)
    case (FileLoaded f)
    with assms Pair show ?thesis
      by (cases f) (auto simp: load_invariant_def finish_load_def shaders_done_def split: if_splits)
  next
    case (FileFailed f)
    with assms Pair show ?thesis
      by (cases f) (auto simp: load_invariant_def finish_load_def shaders_done_def split: if_splits)
  next
    case (RunCreateVS a b)
    with assms Pair show ?thesis
      by (auto simp: load_invariant_def shaders_done_def split: if_splits)
  next
    case (RunCreatePS a b)
    with assms Pair show ?thesis
      by (auto simp: load_invariant_def shaders_done_def split: if_splits)
  next
    case (RunCreateGS a)
    with assms Pair show ?thesis
      by (auto simp: load_invariant_def shaders_done_def split: if_splits)
  next
    case (RunCreateOBJ a b)
    with assms Pair show ?thesis
      by (auto simp: load_invariant_def shaders_done_def split: if_splits)
  next
    case RunComplete
    with assms Pair show ?thesis
      by (auto simp: load_invariant_def shaders_done_def split: if_splits)
  qed
qed

lemma run_load_invariant:
  "load_invariant caps s \<Longrightarrow> run m es s = Some s' \<Longrightarrow> load_invariant caps s'"
proof (induction es arbitrary: s)
  case Nil
  then show ?case by simp
next
  case (Cons e es)
  then obtain s1 where f: "fire m e s = Some s1" and r: "run m es s1 = Some s'"
    by (auto split: option.splits)
  from Cons.prems(1) f have "load_invariant caps s1" by (rule fire_load_invariant)
  then show ?case using r by (rule Cons.IH)
qed

lemma create_load_invariant:
  "\<not> m_loadingComplete r0 \<Longrightarrow> load_invariant caps (CreateDeviceDependentResources caps r0)"
  by (simp add: load_invariant_def CreateDeviceDependentResources_def)

text \<open>
  C6. Take a renderer whose flag is false, as \<^verbatim>\<open>ReleaseDeviceDependentResources\<close>
  leaves it. The flag is still false when \<^verbatim>\<open>CreateDeviceDependentResources\<close>
  returns, and in every state that an execution of the task graph reaches from
  there a true flag comes with all creation steps done: the vertex shader task,
  the pixel shader task, the geometry shader task when the device needs it,
  and the task that builds the vertex and index buffers.
\<close>

theorem ready_only_after_creation:
  assumes "\<not> m_loadingComplete r0"
  shows "\<not> m_loadingComplete (fst (CreateDeviceDependentResources caps r0)) \<and>
         (\<forall>es r t. run m es (CreateDeviceDependentResources caps r0) = Some (r, t) \<longrightarrow>
            m_loadingComplete r \<longrightarrow>
              createVSTask t = Done \<and> createPSTask t = Done \<and>
              (\<not> caps \<longrightarrow> createGSTask t = Some Done) \<and>
              createOBJTask t = Done \<and> creation_complete t)"
proof -
  have "\<not> m_loadingComplete (fst (CreateDeviceDependentResources caps r0))"
    using assms by (simp add: CreateDeviceDependentResources_def)
  moreover have "createVSTask t = Done \<and> createPSTask t = Done \<and>
              (\<not> caps \<longrightarrow> createGSTask t = Some Done) \<and>
              createOBJTask t = Done \<and> creation_complete t"
    if "run m es (CreateDeviceDependentResources caps r0) = Some (r, t)" "m_loadingComplete r"
    for es r t
  proof -
    have "load_invariant caps (r, t)"
      using create_load_invariant [OF assms] that(1) by (rule run_load_invariant)
    with that(2) show ?thesis
      by (auto simp: load_invariant_def shaders_done_def creation_complete_def split: option.splits)
  qed
  ultimately show ?thesis by blast
qed

theorem ready_only_after_creation_witness:
  "\<not> m_loadingComplete (fst (CreateDeviceDependentResources False (ReleaseDeviceDependentResources released_renderer))) \<and>
   (\<exists>r t. run empty_mesh
        [FileLoaded PS, FileLoaded VS, RunCreateVS (Some 1) (Some 2), FileLoaded GS,
         RunCreatePS (Some 3) (Some 4), RunCreateGS (Some 5), RunCreateOBJ (Some 6) (Some 7),
         RunComplete]
        (CreateDeviceDependentResources False (ReleaseDeviceDependentResources released_renderer)) = Some (r, t) \<and>
      m_loadingComplete r \<and> creation_complete t)"
proof -
  let ?s0 = "CreateDeviceDependentResources False (ReleaseDeviceDependentResources released_renderer)"
  let ?es = "[FileLoaded PS, FileLoaded VS, RunCreateVS (Some 1) (Some 2), FileLoaded GS,
         RunCreatePS (Some 3) (Some 4), RunCreateGS (Some 5), RunCreateOBJ (Some 6) (Some 7),
         RunComplete]"
  have idle: "\<not> m_loadingComplete (ReleaseDeviceDependentResources released_renderer)"
    by (simp add: ReleaseDeviceDependentResources_def)
  obtain r t where rt: "run empty_mesh ?es ?s0 = Some (r, t)" and c: "m_loadingComplete r"
    by (simp add: CreateDeviceDependentResources_def ReleaseDeviceDependentResources_def
        released_renderer_def finish_load_def shaders_done_def)
  from ready_only_after_creation [OF idle, of False empty_mesh] rt c
  have "creation_complete t" by blast
  with ready_only_after_creation [OF idle, of False empty_mesh] rt c show ?thesis
    by blast
qed

section \<open>Properties of the normalization\<close>

lemma max_scan_commute:
  assumes "\<And>p q. cmp' (f p) (f q) = cmp p q"
  shows "max_scan cmp' (f l) (map f xs) = f (max_scan cmp l xs)"
  by (induction xs arbitrary: l) (simp_all add: assms if_distrib [of f])

lemma min_scan_commute:
  assumes "\<And>p q. cmp' (f p) (f q) = cmp p q"
  shows "min_scan cmp' (f l) (map f xs) = f (min_scan cmp l xs)"
  by (induction xs arbitrary: l) (simp_all add: assms if_distrib [of f])

lemma max_pos_coords:
  "max_pos (coord a) vs =
     (case coords a vs of [] \<Rightarrow> Inl (Undefined DerefEnd) | c # rest \<Rightarrow> Inr (max_scan fless c rest))"
proof (cases vs)
  case Nil
  then show ?thesis by (simp add: max_pos_def max_element_def deref_def coords_def)
next
  case (Cons v rest)
  have "max_scan fless (coord a (pos v)) (map (\<lambda>v. coord a (pos v)) rest) =
        coord a (pos (max_scan (pos_less (coord a)) v rest))"
    by (rule max_scan_commute) (simp add: pos_less_def)
  with Cons show ?thesis
    by (simp add: max_pos_def max_element_def deref_def coords_def)
qed

lemma min_pos_coords:
  "min_pos (coord a) vs =
     (case coords a vs of [] \<Rightarrow> Inl (Undefined DerefEnd) | c # rest \<Rightarrow> Inr (min_scan fless c rest))"
proof (cases vs)
  case Nil
  then show ?thesis by (simp add: min_pos_def min_element_def deref_def coords_def)
next
  case (Cons v rest)
  have "min_scan fless (coord a (pos v)) (map (\<lambda>v. coord a (pos v)) rest) =
        coord a (pos (min_scan (pos_less (coord a)) v rest))"
    by (rule min_scan_commute) (simp add: pos_less_def)
  with Cons show ?thesis
    by (simp add: min_pos_def min_element_def deref_def coords_def)
qed

lemma span_of_coords: "span_of rd (coord a) vs = span_coords rd (coords a vs)"
  by (cases "coords a vs") (simp_all add: span_of_def span_coords_def max_pos_coords min_pos_coords)

lemma center_of_coords: "center_of rd (coord a) vs = center_coords rd (coords a vs)"
  by (cases "coords a vs") (simp_all add: center_of_def center_coords_def max_pos_coords min_pos_coords)

lemma coord_selectors: "x_of = coord AxisX" "y_of = coord AxisY" "z_of = coord AxisZ"
  by (simp_all add: fun_eq_iff)

lemma coords_scale_steps:
  "coords a (map (fold (\<lambda>g. g) (scale_steps rd avgX delX avgY delY avgZ delZ)) vs) =
   map (case a of AxisX \<Rightarrow> scale_axis rd avgX delX
                | AxisY \<Rightarrow> scale_axis rd avgY delY
                | AxisZ \<Rightarrow> scale_axis rd avgZ delZ) (coords a vs)"
  by (cases a) (simp_all add: coords_def scale_steps_def scale_axis_def)

lemma center_and_scale_coords:
  assumes "vs \<noteq> []"
  shows "\<exists>out. center_and_scale rd vs = Inr out \<and> coords a out = normalize_coords rd (coords a vs)"
proof -
  from assms obtain v rest where vs: "vs = v # rest" by (cases vs) auto
  have ne: "coords b vs = coord b (pos v) # coords b rest" for b
    by (simp add: vs coords_def)
  show ?thesis
    unfolding center_and_scale_def coord_selectors max_pos_coords min_pos_coords ne
    by (cases a) (simp_all add: Let_def scale_loop_map coords_scale_steps normalize_coords_def ne)
qed

lemma normalized_span_coords:
  "vs \<noteq> [] \<Longrightarrow> normalized_span rd a vs = span_coords rd (normalize_coords rd (coords a vs))"
  using center_and_scale_coords [of vs rd a]
  by (auto simp: normalized_span_def span_of_coords)

lemma normalized_center_coords:
  "vs \<noteq> [] \<Longrightarrow> normalized_center rd a vs = center_coords rd (normalize_coords rd (coords a vs))"
  using center_and_scale_coords [of vs rd a]
  by (auto simp: normalized_center_def center_of_coords)

lemma normalized_by_steps:
  assumes "coords a vs = c # cs"
    and "max_scan fless c cs = mx" "min_scan fless c cs = mn"
    and "fabs (fsub rd mx mn) = del" "fdiv rd (fadd rd mx mn) (Finite 2) = avg"
    and "map (scale_axis rd avg del) (c # cs) = n # ns"
    and "max_scan fless n ns = mx'" "min_scan fless n ns = mn'"
  shows "normalized_span rd a vs = Inr (fsub rd mx' mn')"
    and "normalized_center rd a vs = Inr (fdiv rd (fadd rd mx' mn') (Finite 2))"
proof -
  from assms(1) have ne: "vs \<noteq> []" by (auto simp: coords_def)
  have norm: "normalize_coords rd (c # cs) = n # ns"
    by (simp only: normalize_coords_def list.case Let_def assms)
  show "normalized_span rd a vs = Inr (fsub rd mx' mn')"
    by (simp only: normalized_span_coords [OF ne] assms(1) norm span_coords_def list.case assms)
  show "normalized_center rd a vs = Inr (fdiv rd (fadd rd mx' mn') (Finite 2))"
    by (simp only: normalized_center_coords [OF ne] assms(1) norm center_coords_def list.case assms)
qed

lemma normalized_span_pair:
  assumes "coords a vs = [c1, c2]"
    and "max_scan fless c1 [c2] = mx" "min_scan fless c1 [c2] = mn"
    and "fabs (fsub rd mx mn) = del" "fdiv rd (fadd rd mx mn) (Finite 2) = avg"
    and "scale_axis rd avg del c1 = n1" "scale_axis rd avg del c2 = n2"
    and "max_scan fless n1 [n2] = mx'" "min_scan fless n1 [n2] = mn'"
    and "fsub rd mx' mn' = s"
  shows "normalized_span rd a vs = Inr s"
proof -
  have "map (scale_axis rd avg del) [c1, c2] = [n1, n2]"
    by (simp only: list.map assms)
  from normalized_by_steps(1) [OF assms(1-5) this assms(8,9)] show ?thesis
    by (simp only: assms(10))
qed

lemma normalized_coords_coords:
  "vs \<noteq> [] \<Longrightarrow> normalized_coords rd a vs = Inr (normalize_coords rd (coords a vs))"
  using center_and_scale_coords [of vs rd a]
  by (auto simp: normalized_coords_def)

lemma max_scan_greatest:
  "max_scan (<) (l :: rat) xs \<in> set (l # xs) \<and> (\<forall>x \<in> set (l # xs). x \<le> max_scan (<) l xs)"
proof (induction xs arbitrary: l)
  case Nil
  then show ?case by simp
next
  case (Cons x xs)
  let ?l = "if l < x then x else l"
  from Cons.IH [of ?l]
  have "max_scan (<) ?l xs \<in> set (?l # xs)" and ub: "\<forall>y \<in> set (?l # xs). y \<le> max_scan (<) ?l xs"
    by blast+
  moreover from ub have "l \<le> max_scan (<) ?l xs" "x \<le> max_scan (<) ?l xs"
    by (auto split: if_splits)
  ultimately show ?case by (auto split: if_splits)
qed

lemma min_scan_least:
  "min_scan (<) (l :: rat) xs \<in> set (l # xs) \<and> (\<forall>x \<in> set (l # xs). min_scan (<) l xs \<le> x)"
proof (induction xs arbitrary: l)
  case Nil
  then show ?case by simp
next
  case (Cons x xs)
  let ?l = "if x < l then x else l"
  from Cons.IH [of ?l]
  have "min_scan (<) ?l xs \<in> set (?l # xs)" and lb: "\<forall>y \<in> set (?l # xs). min_scan (<) ?l xs \<le> y"
    by blast+
  moreover from lb have "min_scan (<) ?l xs \<le> l" "min_scan (<) ?l xs \<le> x"
    by (auto split: if_splits)
  ultimately show ?case by (auto split: if_splits)
qed

lemma max_scan_Finite: "max_scan fless (Finite q) (map Finite qs) = Finite (max_scan (<) q qs)"
  by (rule max_scan_commute) simp

lemma min_scan_Finite: "min_scan fless (Finite q) (map Finite qs) = Finite (min_scan (<) q qs)"
  by (rule min_scan_commute) simp

lemma finite_coords:
  assumes "\<forall>c \<in> set cs. is_finite c"
  shows "cs = map Finite (map value_of cs)"
  using assms
proof (induction cs)
  case Nil
  then show ?case by simp
next
  case (Cons c cs)
  then show ?case by (cases c) simp_all
qed

subsection \<open>The rounding\<close>

text \<open>The rounding is symmetric: the opposite of a binary32 number is one.\<close>

lemma round_even_minus: "round_even (- r) = - round_even r"
proof -
  have fl: "\<lfloor>- r\<rfloor> = (if r = of_int \<lfloor>r\<rfloor> then - \<lfloor>r\<rfloor> else - \<lfloor>r\<rfloor> - 1)"
    using ceiling_altdef [of r] by (simp add: ceiling_def split: if_splits)
  show ?thesis
  proof (cases "r = of_int \<lfloor>r\<rfloor>")
    case True
    then have "r - of_int \<lfloor>r\<rfloor> = 0" by simp
    with True fl show ?thesis by (simp add: round_even_def Let_def)
  next
    case False
    have "of_int \<lfloor>r\<rfloor> < r"
      by (metis False less_le of_int_floor_le)
    then have d: "0 < r - of_int \<lfloor>r\<rfloor>" by simp
    from False fl have f: "\<lfloor>- r\<rfloor> = - \<lfloor>r\<rfloor> - 1" by simp
    show ?thesis
      unfolding round_even_def Let_def f using d
      by (auto simp: algebra_simps)
  qed
qed

lemma ilog2_minus: "ilog2 (- q) = ilog2 q"
  by (simp add: ilog2_def)

lemma round32_minus: "round32 (- q) = fneg (round32 q)"
  by (auto simp: round32_def Let_def ilog2_minus round_even_minus)

lemma binary32_minus: "binary32 q \<Longrightarrow> binary32 (- q)"
  by (simp add: binary32_def round32_minus)

lemma fdiv_Finite: "b \<noteq> 0 \<Longrightarrow> fdiv rd (Finite a) (Finite b) = rd (a / b)"
  by simp

lemma fsub_Finite: "fsub rd (Finite a) (Finite b) = rd (a - b)"
  by (simp add: fsub_def)

lemma tenth_roundings:
  "round32 (1 / 10) = Finite (13421773 / 134217728)"
  "round32 (- (1 / 10)) = Finite (- (13421773 / 134217728))"
  "round32 (1 / 5) = Finite (13421773 / 67108864)"
  "fsub round32 (Finite (13421773 / 134217728)) (Finite (- (13421773 / 134217728))) =
     Finite (13421773 / 67108864)"
  "fdiv round32 (fadd round32 (Finite (13421773 / 134217728)) (Finite (- (13421773 / 134217728))))
     (Finite 2) = Finite 0"
  by code_simp+

subsection \<open>Centre and span of a cube after the normalization\<close>

lemma two_valued_max:
  fixes l h :: rat
  assumes "set (q # rest) \<subseteq> {l, h}" and "h \<in> set (q # rest)" and "l \<le> h"
  shows "max_scan (<) q rest = h"
proof -
  from max_scan_greatest [of q rest]
  have "max_scan (<) q rest \<in> set (q # rest)" and "\<forall>x \<in> set (q # rest). x \<le> max_scan (<) q rest"
    by blast+
  with assms have "max_scan (<) q rest \<in> {l, h}" and "h \<le> max_scan (<) q rest"
    by blast+
  with assms(3) show ?thesis by auto
qed

lemma two_valued_min:
  fixes l h :: rat
  assumes "set (q # rest) \<subseteq> {l, h}" and "l \<in> set (q # rest)" and "l \<le> h"
  shows "min_scan (<) q rest = l"
proof -
  from min_scan_least [of q rest]
  have "min_scan (<) q rest \<in> set (q # rest)" and "\<forall>x \<in> set (q # rest). min_scan (<) q rest \<le> x"
    by blast+
  with assms have "min_scan (<) q rest \<in> {l, h}" and "min_scan (<) q rest \<le> l"
    by blast+
  with assms(3) show ?thesis by auto
qed

lemma cube_coords:
  assumes "cube_on a lo hi vs"
  shows "\<exists>q rest. coords a vs = map Finite (q # rest) \<and> set (q # rest) \<subseteq> {lo, hi} \<and>
           lo \<in> set (q # rest) \<and> hi \<in> set (q # rest)"
proof -
  from assms have each: "\<forall>c \<in> set (coords a vs). c = Finite lo \<or> c = Finite hi"
    and l: "Finite lo \<in> set (coords a vs)" and h: "Finite hi \<in> set (coords a vs)"
    by (auto simp: cube_on_def coords_def intro: rev_image_eqI)
  define qs where "qs = map value_of (coords a vs)"
  from each have "\<forall>c \<in> set (coords a vs). is_finite c" by auto
  from finite_coords [OF this] have cs: "coords a vs = map Finite qs"
    by (simp add: qs_def)
  from each have "set qs \<subseteq> {lo, hi}" by (auto simp: qs_def)
  moreover from l h have "lo \<in> set qs" "hi \<in> set qs" by (auto simp: cs)
  moreover from this obtain q rest where "qs = q # rest" by (cases qs) auto
  ultimately show ?thesis using cs by blast
qed

lemma cube_scans:
  fixes lo hi :: rat
  assumes "set (q # rest) \<subseteq> {lo, hi}" and "lo \<in> set (q # rest)" and "hi \<in> set (q # rest)"
    and "lo \<le> hi"
  shows "max_scan fless (Finite q) (map Finite rest) = Finite hi"
    and "min_scan fless (Finite q) (map Finite rest) = Finite lo"
  using assms by (simp_all only: max_scan_Finite min_scan_Finite two_valued_max two_valued_min)

lemma cube_normalize_coords:
  fixes lo hi :: rat
  assumes two: "set (q # rest) \<subseteq> {lo, hi}" and l: "lo \<in> set (q # rest)" and h: "hi \<in> set (q # rest)"
    and lt: "lo < hi"
    and e1: "binary32 (hi + lo)" and e2: "binary32 ((hi + lo) / 2)"
    and e3: "binary32 (hi - lo)" and e4: "binary32 (5 * (hi - lo))"
    and e5: "binary32 ((hi - lo) / 2)"
  shows "normalize_coords round32 (map Finite (q # rest)) =
         map Finite (map (\<lambda>p. if p = hi then 13421773 / 134217728 else - (13421773 / 134217728))
           (q # rest))"
proof -
  let ?c = "(hi + lo) / 2" and ?d = "hi - lo"
  from lt have le: "lo \<le> hi" by simp
  note scans = cube_scans [OF two l h le]
  have del: "fabs (fsub round32 (Finite hi) (Finite lo)) = Finite ?d"
    using e3 lt by (simp add: fsub_Finite binary32_def)
  have avg: "fdiv round32 (fadd round32 (Finite hi) (Finite lo)) (Finite 2) = Finite ?c"
    using e1 e2 by (simp add: binary32_def)
  have five: "fmul round32 (Finite 5) (Finite ?d) = Finite (5 * ?d)"
    using e4 by (simp add: binary32_def)
  have "hi - ?c = ?d / 2" by (simp add: field_simps)
  with e5 have up: "fsub round32 (Finite hi) (Finite ?c) = Finite (?d / 2)"
    by (simp only: fsub_Finite binary32_def)
  have "lo - ?c = - (?d / 2)" by (simp add: field_simps)
  with binary32_minus [OF e5] have down: "fsub round32 (Finite lo) (Finite ?c) = Finite (- (?d / 2))"
    by (simp only: fsub_Finite binary32_def)
  from lt have nz: "5 * ?d \<noteq> 0" by simp
  from lt have q_up: "(?d / 2) / (5 * ?d) = 1 / 10" and q_down: "(- (?d / 2)) / (5 * ?d) = - (1 / 10)"
    by (simp_all add: field_simps)
  have s_hi: "scale_axis round32 (Finite ?c) (Finite ?d) (Finite hi) = Finite (13421773 / 134217728)"
    by (simp only: scale_axis_def up five fdiv_Finite [OF nz] q_up tenth_roundings)
  have s_lo: "scale_axis round32 (Finite ?c) (Finite ?d) (Finite lo) = Finite (- (13421773 / 134217728))"
    by (simp only: scale_axis_def down five fdiv_Finite [OF nz] q_down tenth_roundings)
  have each: "scale_axis round32 (Finite ?c) (Finite ?d) (Finite p) =
      Finite (if p = hi then 13421773 / 134217728 else - (13421773 / 134217728))"
    if "p \<in> set (q # rest)" for p
  proof (cases "p = hi")
    case True
    then show ?thesis by (simp add: s_hi)
  next
    case False
    with that two have "p = lo" by auto
    with False show ?thesis by (simp add: s_lo)
  qed
  have "normalize_coords round32 (map Finite (q # rest)) =
        map (scale_axis round32 (Finite ?c) (Finite ?d)) (map Finite (q # rest))"
    by (simp only: normalize_coords_def list.map list.case Let_def scans del avg)
  also have "\<dots> = map Finite (map (\<lambda>p. if p = hi then 13421773 / 134217728 else - (13421773 / 134217728))
      (q # rest))"
    unfolding map_map o_def by (rule map_cong [OF refl]) (rule each)
  finally show ?thesis .
qed

lemma cube_normalized:
  assumes cube: "cube_on a lo hi vs"
    and e1: "binary32 (hi + lo)" and e2: "binary32 ((hi + lo) / 2)"
    and e3: "binary32 (hi - lo)" and e4: "binary32 (5 * (hi - lo))"
    and e5: "binary32 ((hi - lo) / 2)"
  shows "normalized_center round32 a vs = Inr (Finite 0)"
    and "normalized_span round32 a vs = Inr (Finite (13421773 / 67108864))"
    and "and_then (span_of round32 (coord a) vs) (\<lambda>s. Inr (fdiv round32 s (fmul round32 (Finite 5) s))) =
         Inr (Finite (13421773 / 67108864))"
proof -
  let ?A = "13421773 / 134217728 :: rat"
  let ?g = "\<lambda>p. if p = hi then ?A else - ?A"
  from cube have lt: "lo < hi" by (simp add: cube_on_def)
  from cube_coords [OF cube] obtain q rest where cs: "coords a vs = map Finite (q # rest)"
    and two: "set (q # rest) \<subseteq> {lo, hi}" and l: "lo \<in> set (q # rest)" and h: "hi \<in> set (q # rest)"
    by blast
  from cs have ne: "vs \<noteq> []" by (auto simp: coords_def)
  have norm: "normalize_coords round32 (coords a vs) = map Finite (?g q # map ?g rest)"
    unfolding cs using cube_normalize_coords [OF two l h lt e1 e2 e3 e4 e5] by simp
  have two': "set (?g q # map ?g rest) \<subseteq> {- ?A, ?A}" by auto
  from h have h': "?A \<in> set (?g q # map ?g rest)" by force
  from l lt have l': "- ?A \<in> set (?g q # map ?g rest)" by force
  have le': "- ?A \<le> ?A" by simp
  note scans' = cube_scans [OF two' l' h' le']
  show "normalized_center round32 a vs = Inr (Finite 0)"
    by (simp only: normalized_center_coords [OF ne] norm center_coords_def list.map list.case scans'
        tenth_roundings)
  show "normalized_span round32 a vs = Inr (Finite (13421773 / 67108864))"
    by (simp only: normalized_span_coords [OF ne] norm span_coords_def list.map list.case scans'
        tenth_roundings)
  from lt have le: "lo \<le> hi" by simp
  note scans = cube_scans [OF two l h le]
  from e3 have del: "fsub round32 (Finite hi) (Finite lo) = Finite (hi - lo)"
    by (simp only: fsub_Finite binary32_def)
  from e4 have five: "fmul round32 (Finite 5) (Finite (hi - lo)) = Finite (5 * (hi - lo))"
    by (simp add: binary32_def)
  from lt have nz: "5 * (hi - lo) \<noteq> 0" and q: "(hi - lo) / (5 * (hi - lo)) = 1 / 5"
    by simp_all
  show "and_then (span_of round32 (coord a) vs) (\<lambda>s. Inr (fdiv round32 s (fmul round32 (Finite 5) s))) =
        Inr (Finite (13421773 / 67108864))"
    by (simp only: span_of_coords cs span_coords_def list.map list.case scans del and_then_Inr five
        fdiv_Finite [OF nz] q tenth_roundings)
qed

text \<open>
  C1, in binary32. Take a mesh that is a cube along an axis, with the
  coordinates \<open>lo < hi\<close>, such that the sum \<open>hi + lo\<close>, its half, the difference
  \<open>hi - lo\<close>, five times it and half of it are binary32 numbers, as they are for
  \<open>lo = - 1\<close> and \<open>hi = 1\<close>. After the normalization the centre
  \<open>(max + min) / 2\<close> of that coordinate is 0, and its span \<open>max - min\<close> is
  \<open>13421773 / 2 ^ 26\<close>, the binary32 number next to \<open>1 / 5\<close>, whatever the span
  was before: it is the span the mesh had, divided by 5 times that span.
\<close>

theorem cube_normalized_binary32:
  assumes "cube_on a lo hi vs"
    and "binary32 (hi + lo)" and "binary32 ((hi + lo) / 2)"
    and "binary32 (hi - lo)" and "binary32 (5 * (hi - lo))"
    and "binary32 ((hi - lo) / 2)"
  shows "normalized_center round32 a vs = Inr (Finite 0) \<and>
         normalized_span round32 a vs = Inr (Finite (13421773 / 67108864)) \<and>
         normalized_span round32 a vs =
           and_then (span_of round32 (coord a) vs) (\<lambda>s. Inr (fdiv round32 s (fmul round32 (Finite 5) s)))"
  by (simp only: cube_normalized [OF assms])

lemma unit_cube_on: "cube_on a (- 1) 1 unit_cube"
  by (cases a) (simp_all add: cube_on_def unit_cube_def cube_at_def vertex_at_def)

lemma unit_cube_roundings:
  "binary32 (1 + - 1)" "binary32 ((1 + - 1) / 2)" "binary32 (1 - - 1)"
  "binary32 (5 * (1 - - 1))" "binary32 ((1 - - 1) / 2)"
  by code_simp+

theorem cube_normalized_binary32_witness:
  "(normalized_center round32 AxisX unit_cube = Inr (Finite 0) \<and>
    normalized_center round32 AxisY unit_cube = Inr (Finite 0) \<and>
    normalized_center round32 AxisZ unit_cube = Inr (Finite 0)) \<and>
   (normalized_span round32 AxisX unit_cube = Inr (Finite (13421773 / 67108864)) \<and>
    normalized_span round32 AxisY unit_cube = Inr (Finite (13421773 / 67108864)) \<and>
    normalized_span round32 AxisZ unit_cube = Inr (Finite (13421773 / 67108864)))"
  using cube_normalized_binary32 [OF unit_cube_on unit_cube_roundings, of AxisX]
    cube_normalized_binary32 [OF unit_cube_on unit_cube_roundings, of AxisY]
    cube_normalized_binary32 [OF unit_cube_on unit_cube_roundings, of AxisZ]
  by simp

text \<open>
  On the cube with the corners \<open>(\<plusminus>1, \<plusminus>1, \<plusminus>1)\<close> the span is 2 before the
  normalization. After it the span is \<open>13421773 / 2 ^ 26\<close>, where the fifth of 2
  is \<open>13421773 / 2 ^ 25\<close>. On the cube whose coordinates are \<open>2 ^ 23\<close> and
  \<open>2 ^ 23 + 3\<close> the half of the sum is not a binary32 number; the centre is
  computed as \<open>2 ^ 23 + 2\<close>, and after the normalization the centre is
  \<open>- 8947849 / 2 ^ 28\<close>, near \<open>- 1 / 30\<close>.
\<close>

lemma cube_at_coords:
  "coords AxisX (cube_at lo hi) =
   [Finite lo, Finite lo, Finite lo, Finite lo, Finite hi, Finite hi, Finite hi, Finite hi]"
  by (simp add: coords_def cube_at_def vertex_at_def)

lemma unit_cube_span_before:
  "span_of round32 (coord AxisX) unit_cube = Inr (Finite 2)"
proof -
  have mx: "max_scan fless (Finite (- 1))
      [Finite (- 1), Finite (- 1), Finite (- 1), Finite 1, Finite 1, Finite 1, Finite 1] = Finite 1"
    by simp
  have mn: "min_scan fless (Finite (- 1))
      [Finite (- 1), Finite (- 1), Finite (- 1), Finite 1, Finite 1, Finite 1, Finite 1] = Finite (- 1)"
    by simp
  have before: "fsub round32 (Finite 1) (Finite (- 1)) = Finite 2" by code_simp
  show ?thesis
    by (simp only: span_of_coords unit_cube_def cube_at_coords span_coords_def list.case mx mn before)
qed

lemma far_cube_center:
  "normalized_center round32 AxisX (cube_at 8388608 8388611) = Inr (Finite (- (8947849 / 268435456)))"
proof -
  let ?lo = "Finite (- (8947849 / 67108864))" and ?hi = "Finite (8947849 / 134217728)"
  have mx: "max_scan fless (Finite 8388608)
      [Finite 8388608, Finite 8388608, Finite 8388608,
       Finite 8388611, Finite 8388611, Finite 8388611, Finite 8388611] = Finite 8388611"
    by simp
  have mn: "min_scan fless (Finite 8388608)
      [Finite 8388608, Finite 8388608, Finite 8388608,
       Finite 8388611, Finite 8388611, Finite 8388611, Finite 8388611] = Finite 8388608"
    by simp
  have del: "fabs (fsub round32 (Finite 8388611) (Finite 8388608)) = Finite 3" by code_simp
  have avg: "fdiv round32 (fadd round32 (Finite 8388611) (Finite 8388608)) (Finite 2) = Finite 8388610"
    by code_simp
  have s_lo: "scale_axis round32 (Finite 8388610) (Finite 3) (Finite 8388608) = ?lo" by code_simp
  have s_hi: "scale_axis round32 (Finite 8388610) (Finite 3) (Finite 8388611) = ?hi" by code_simp
  have scaled: "map (scale_axis round32 (Finite 8388610) (Finite 3))
      [Finite 8388608, Finite 8388608, Finite 8388608, Finite 8388608,
       Finite 8388611, Finite 8388611, Finite 8388611, Finite 8388611] =
      [?lo, ?lo, ?lo, ?lo, ?hi, ?hi, ?hi, ?hi]"
    by (simp only: list.map s_lo s_hi)
  have mx': "max_scan fless ?lo [?lo, ?lo, ?lo, ?hi, ?hi, ?hi, ?hi] = ?hi" by simp
  have mn': "min_scan fless ?lo [?lo, ?lo, ?lo, ?hi, ?hi, ?hi, ?hi] = ?lo" by simp
  have c: "fdiv round32 (fadd round32 ?hi ?lo) (Finite 2) = Finite (- (8947849 / 268435456))"
    by code_simp
  from normalized_by_steps(2) [OF cube_at_coords mx mn del avg scaled mx' mn'] show ?thesis
    by (simp only: c)
qed

theorem normalized_span_counterexample:
  "normalized_span round32 AxisX unit_cube \<noteq>
     and_then (span_of round32 (coord AxisX) unit_cube) (\<lambda>s. Inr (fdiv round32 s (Finite 5))) \<and>
   normalized_center round32 AxisX (cube_at 8388608 8388611) \<noteq> Inr (Finite 0)"
proof -
  have fifth: "fdiv round32 (Finite 2) (Finite 5) = Finite (13421773 / 33554432)" by code_simp
  have "and_then (span_of round32 (coord AxisX) unit_cube) (\<lambda>s. Inr (fdiv round32 s (Finite 5))) =
      Inr (Finite (13421773 / 33554432))"
    by (simp only: unit_cube_span_before and_then_Inr fifth)
  moreover have "normalized_span round32 AxisX unit_cube = Inr (Finite (13421773 / 67108864))"
    by (rule cube_normalized(2) [OF unit_cube_on unit_cube_roundings])
  ultimately show ?thesis
    by (simp add: far_cube_center)
qed

subsection \<open>Translation along an axis\<close>

lemma coords_translate:
  "coords a (map (translate rd a t) vs) = map (\<lambda>c. fadd rd c t) (coords a vs)"
  by (cases a) (simp_all add: coords_def translate_def)

lemma coords_translated:
  assumes "coords a vs = map Finite qs" and "\<forall>q \<in> set qs. binary32 (q + t)"
  shows "coords a (map (translate round32 a (Finite t)) vs) = map Finite (map (\<lambda>q. q + t) qs)"
  using assms by (simp add: coords_translate binary32_def)

lemma normalize_coords_translated:
  fixes q t :: rat
  assumes c: "center_coords round32 (map Finite (q # rest)) = Inr (Finite c)"
    and c': "center_coords round32 (map Finite (map (\<lambda>q. q + t) (q # rest))) = Inr (Finite (c + t))"
  shows "normalize_coords round32 (map Finite (map (\<lambda>q. q + t) (q # rest))) =
         normalize_coords round32 (map Finite (q # rest))"
proof -
  define mx where "mx = max_scan (<) q rest"
  define mn where "mn = min_scan (<) q rest"
  define del where "del = fabs (fsub round32 (Finite mx) (Finite mn))"
  have hi: "max_scan fless (Finite q) (map Finite rest) = Finite mx"
    by (simp only: max_scan_Finite mx_def)
  have lo: "min_scan fless (Finite q) (map Finite rest) = Finite mn"
    by (simp only: min_scan_Finite mn_def)
  have "max_scan (<) (q + t) (map (\<lambda>q. q + t) rest) = mx + t"
    unfolding mx_def by (rule max_scan_commute [where f = "\<lambda>q. q + t"]) simp
  then have hi': "max_scan fless (Finite (q + t)) (map Finite (map (\<lambda>q. q + t) rest)) = Finite (mx + t)"
    by (simp only: max_scan_Finite)
  have "min_scan (<) (q + t) (map (\<lambda>q. q + t) rest) = mn + t"
    unfolding mn_def by (rule min_scan_commute [where f = "\<lambda>q. q + t"]) simp
  then have lo': "min_scan fless (Finite (q + t)) (map Finite (map (\<lambda>q. q + t) rest)) = Finite (mn + t)"
    by (simp only: min_scan_Finite)
  from c have avg: "fdiv round32 (fadd round32 (Finite mx) (Finite mn)) (Finite 2) = Finite c"
    by (simp only: center_coords_def list.map list.case hi lo sum.inject)
  from c' have avg': "fdiv round32 (fadd round32 (Finite (mx + t)) (Finite (mn + t))) (Finite 2) =
      Finite (c + t)"
    by (simp only: center_coords_def list.map list.case hi' lo' sum.inject)
  have "(mx + t) - (mn + t) = mx - mn" by simp
  then have del': "fabs (fsub round32 (Finite (mx + t)) (Finite (mn + t))) = del"
    by (simp only: del_def fsub_Finite)
  have each: "scale_axis round32 (Finite (c + t)) del (Finite (p + t)) =
      scale_axis round32 (Finite c) del (Finite p)" for p
  proof -
    have "(p + t) - (c + t) = p - c" by simp
    then show ?thesis by (simp only: scale_axis_def fsub_Finite)
  qed
  have "normalize_coords round32 (map Finite (map (\<lambda>q. q + t) (q # rest))) =
        map (scale_axis round32 (Finite (c + t)) del) (map Finite (map (\<lambda>q. q + t) (q # rest)))"
    by (simp only: normalize_coords_def list.map list.case Let_def hi' lo' del' avg')
  also have "\<dots> = map (scale_axis round32 (Finite c) del) (map Finite (q # rest))"
    by (simp only: map_map o_def each)
  also have "\<dots> = normalize_coords round32 (map Finite (q # rest))"
    by (simp only: normalize_coords_def list.map list.case Let_def hi lo del_def avg)
  finally show ?thesis .
qed

text \<open>
  C4, in binary32. Take a mesh with finite coordinates on an axis and an offset
  such that every translated coordinate is a binary32 number and the centre
  \<open>(max + min) / 2\<close> computed for the translated mesh is the centre computed for
  the mesh plus the offset. Then the normalization gives the translated mesh
  the coordinates it gives the mesh, vertex by vertex, and so the same span
  \<open>max - min\<close>.
\<close>

theorem translation_invariant_binary32:
  assumes "\<forall>v \<in> set vs. \<exists>q. coord a (pos v) = Finite q \<and> binary32 (q + t)"
    and "center_of round32 (coord a) vs = Inr (Finite c)"
    and "center_of round32 (coord a) (map (translate round32 a (Finite t)) vs) = Inr (Finite (c + t))"
  shows "normalized_coords round32 a (map (translate round32 a (Finite t)) vs) =
           normalized_coords round32 a vs \<and>
         normalized_span round32 a (map (translate round32 a (Finite t)) vs) =
           normalized_span round32 a vs"
proof -
  let ?ws = "map (translate round32 a (Finite t)) vs"
  define qs where "qs = map value_of (coords a vs)"
  from assms(1) have "\<forall>c \<in> set (coords a vs). is_finite c"
    by (auto simp: coords_def)
  from finite_coords [OF this] have cs: "coords a vs = map Finite qs"
    by (simp add: qs_def)
  from assms(1) have "\<forall>q \<in> set qs. binary32 (q + t)"
    by (auto simp: qs_def coords_def)
  from coords_translated [OF cs this] have cs': "coords a ?ws = map Finite (map (\<lambda>q. q + t) qs)" .
  from assms(2) have ne: "vs \<noteq> []"
    by (auto simp: center_of_def max_pos_def max_element_def deref_def)
  then have ne': "?ws \<noteq> []" by simp
  from ne cs obtain q rest where qs: "qs = q # rest"
    by (cases qs) (auto simp: coords_def)
  from assms(2) have c: "center_coords round32 (map Finite (q # rest)) = Inr (Finite c)"
    by (simp only: center_of_coords cs qs)
  from assms(3) have c': "center_coords round32 (map Finite (map (\<lambda>q. q + t) (q # rest))) =
      Inr (Finite (c + t))"
    by (simp only: center_of_coords cs' qs)
  have "normalize_coords round32 (coords a ?ws) = normalize_coords round32 (coords a vs)"
    unfolding cs cs' qs by (rule normalize_coords_translated [OF c c'])
  then show ?thesis
    by (simp only: normalized_coords_coords [OF ne] normalized_coords_coords [OF ne']
        normalized_span_coords [OF ne] normalized_span_coords [OF ne'])
qed

text \<open>
  The mesh with the \<open>x\<close> coordinates 0 and 4, moved by \<open>2 ^ 23\<close>: the moved
  coordinates \<open>2 ^ 23\<close> and \<open>2 ^ 23 + 4\<close> and the centre \<open>2 ^ 23 + 2\<close> are binary32
  numbers, and the span after the normalization is the one of the mesh.
\<close>

lemma span_0_4:
  "normalized_span round32 AxisX (two_vertices 0 4) = Inr (Finite (13421773 / 67108864))"
proof (rule cube_normalized(2))
  show "cube_on AxisX 0 4 (two_vertices 0 4)"
    by (simp add: cube_on_def two_vertices_def vertex_at_def)
  show "binary32 (4 + 0)" "binary32 ((4 + 0) / 2)" "binary32 (4 - 0)" "binary32 (5 * (4 - 0))"
    "binary32 ((4 - 0) / 2)"
    by code_simp+
qed

theorem translation_invariant_binary32_witness:
  "normalized_span round32 AxisX (map (translate round32 AxisX (Finite 8388608)) (two_vertices 0 4)) =
   Inr (Finite (13421773 / 67108864))"
proof -
  have "binary32 8388608" "binary32 8388612" by code_simp+
  then have moved: "\<forall>v \<in> set (two_vertices 0 4).
      \<exists>q. coord AxisX (pos v) = Finite q \<and> binary32 (q + 8388608)"
    by (simp add: two_vertices_def vertex_at_def)
  have c: "center_of round32 (coord AxisX) (two_vertices 0 4) = Inr (Finite 2)"
    by code_simp
  have c': "center_of round32 (coord AxisX)
      (map (translate round32 AxisX (Finite 8388608)) (two_vertices 0 4)) = Inr (Finite (2 + 8388608))"
    by code_simp
  from translation_invariant_binary32 [OF moved c c'] show ?thesis
    by (simp only: span_0_4)
qed

text \<open>
  Without those conditions the span changes. The mesh with the \<open>x\<close> coordinates
  0 and 3, moved by \<open>2 ^ 23\<close> (both sums are binary32 numbers, the centre
  \<open>2 ^ 23 + 3 / 2\<close> is not), gets the span \<open>6710887 / 2 ^ 25\<close> instead of
  \<open>13421773 / 2 ^ 26\<close>; the mesh with the \<open>x\<close> coordinates 0 and 1, moved by
  \<open>2 ^ 25\<close>, has both vertices at \<open>2 ^ 25\<close> and gets a NaN.
\<close>

lemma span_0_3:
  "normalized_span round32 AxisX (two_vertices 0 3) = Inr (Finite (13421773 / 67108864))"
proof (rule normalized_span_pair)
  show "coords AxisX (two_vertices 0 3) = [Finite 0, Finite 3]"
    by (simp add: coords_def two_vertices_def vertex_at_def)
  show "max_scan fless (Finite 0) [Finite 3] = Finite 3" by simp
  show "min_scan fless (Finite 0) [Finite 3] = Finite 0" by simp
  show "fabs (fsub round32 (Finite 3) (Finite 0)) = Finite 3" by code_simp
  show "fdiv round32 (fadd round32 (Finite 3) (Finite 0)) (Finite 2) = Finite (3 / 2)" by code_simp
  show "scale_axis round32 (Finite (3 / 2)) (Finite 3) (Finite 0) = Finite (- (13421773 / 134217728))"
    by code_simp
  show "scale_axis round32 (Finite (3 / 2)) (Finite 3) (Finite 3) = Finite (13421773 / 134217728)"
    by code_simp
  show "max_scan fless (Finite (- (13421773 / 134217728))) [Finite (13421773 / 134217728)] =
        Finite (13421773 / 134217728)" by simp
  show "min_scan fless (Finite (- (13421773 / 134217728))) [Finite (13421773 / 134217728)] =
        Finite (- (13421773 / 134217728))" by simp
  show "fsub round32 (Finite (13421773 / 134217728)) (Finite (- (13421773 / 134217728))) =
        Finite (13421773 / 67108864)" by code_simp
qed

lemma span_0_3_moved:
  "normalized_span round32 AxisX (map (translate round32 AxisX (Finite 8388608)) (two_vertices 0 3)) =
   Inr (Finite (6710887 / 33554432))"
proof (rule normalized_span_pair)
  have "fadd round32 (Finite 0) (Finite 8388608) = Finite 8388608"
    and "fadd round32 (Finite 3) (Finite 8388608) = Finite 8388611"
    by code_simp+
  then show "coords AxisX (map (translate round32 AxisX (Finite 8388608)) (two_vertices 0 3)) =
        [Finite 8388608, Finite 8388611]"
    by (simp only: coords_translate)
       (simp only: coords_def two_vertices_def vertex_at_def list.map coord.simps
          VertexPositionColor.simps XMFLOAT3.simps)
  show "max_scan fless (Finite 8388608) [Finite 8388611] = Finite 8388611" by simp
  show "min_scan fless (Finite 8388608) [Finite 8388611] = Finite 8388608" by simp
  show "fabs (fsub round32 (Finite 8388611) (Finite 8388608)) = Finite 3" by code_simp
  show "fdiv round32 (fadd round32 (Finite 8388611) (Finite 8388608)) (Finite 2) = Finite 8388610"
    by code_simp
  show "scale_axis round32 (Finite 8388610) (Finite 3) (Finite 8388608) = Finite (- (8947849 / 67108864))"
    by code_simp
  show "scale_axis round32 (Finite 8388610) (Finite 3) (Finite 8388611) = Finite (8947849 / 134217728)"
    by code_simp
  show "max_scan fless (Finite (- (8947849 / 67108864))) [Finite (8947849 / 134217728)] =
        Finite (8947849 / 134217728)" by simp
  show "min_scan fless (Finite (- (8947849 / 67108864))) [Finite (8947849 / 134217728)] =
        Finite (- (8947849 / 67108864))" by simp
  show "fsub round32 (Finite (8947849 / 134217728)) (Finite (- (8947849 / 67108864))) =
        Finite (6710887 / 33554432)" by code_simp
qed

lemma span_0_1:
  "normalized_span round32 AxisX (two_vertices 0 1) = Inr (Finite (13421773 / 67108864))"
proof (rule normalized_span_pair)
  show "coords AxisX (two_vertices 0 1) = [Finite 0, Finite 1]"
    by (simp add: coords_def two_vertices_def vertex_at_def)
  show "max_scan fless (Finite 0) [Finite 1] = Finite 1" by simp
  show "min_scan fless (Finite 0) [Finite 1] = Finite 0" by simp
  show "fabs (fsub round32 (Finite 1) (Finite 0)) = Finite 1" by code_simp
  show "fdiv round32 (fadd round32 (Finite 1) (Finite 0)) (Finite 2) = Finite (1 / 2)" by code_simp
  show "scale_axis round32 (Finite (1 / 2)) (Finite 1) (Finite 0) = Finite (- (13421773 / 134217728))"
    by code_simp
  show "scale_axis round32 (Finite (1 / 2)) (Finite 1) (Finite 1) = Finite (13421773 / 134217728)"
    by code_simp
  show "max_scan fless (Finite (- (13421773 / 134217728))) [Finite (13421773 / 134217728)] =
        Finite (13421773 / 134217728)" by simp
  show "min_scan fless (Finite (- (13421773 / 134217728))) [Finite (13421773 / 134217728)] =
        Finite (- (13421773 / 134217728))" by simp
  show "fsub round32 (Finite (13421773 / 134217728)) (Finite (- (13421773 / 134217728))) =
        Finite (13421773 / 67108864)" by code_simp
qed

lemma span_0_1_moved:
  "normalized_span round32 AxisX (map (translate round32 AxisX (Finite 33554432)) (two_vertices 0 1)) =
   Inr NaN"
proof (rule normalized_span_pair)
  have "fadd round32 (Finite 0) (Finite 33554432) = Finite 33554432"
    and "fadd round32 (Finite 1) (Finite 33554432) = Finite 33554432"
    by code_simp+
  then show "coords AxisX (map (translate round32 AxisX (Finite 33554432)) (two_vertices 0 1)) =
        [Finite 33554432, Finite 33554432]"
    by (simp only: coords_translate)
       (simp only: coords_def two_vertices_def vertex_at_def list.map coord.simps
          VertexPositionColor.simps XMFLOAT3.simps)
  show "max_scan fless (Finite 33554432) [Finite 33554432] = Finite 33554432" by simp
  show "min_scan fless (Finite 33554432) [Finite 33554432] = Finite 33554432" by simp
  show "fabs (fsub round32 (Finite 33554432) (Finite 33554432)) = Finite 0" by code_simp
  show "fdiv round32 (fadd round32 (Finite 33554432) (Finite 33554432)) (Finite 2) = Finite 33554432"
    by code_simp
  show "scale_axis round32 (Finite 33554432) (Finite 0) (Finite 33554432) = NaN"
    by code_simp
  then show "scale_axis round32 (Finite 33554432) (Finite 0) (Finite 33554432) = NaN" .
  show "max_scan fless NaN [NaN] = NaN" by simp
  show "min_scan fless NaN [NaN] = NaN" by simp
  show "fsub round32 NaN NaN = NaN" by (simp add: fsub_def)
qed

theorem translation_invariant_counterexample:
  "normalized_span round32 AxisX (map (translate round32 AxisX (Finite 8388608)) (two_vertices 0 3)) \<noteq>
     normalized_span round32 AxisX (two_vertices 0 3) \<and>
   normalized_span round32 AxisX (map (translate round32 AxisX (Finite 33554432)) (two_vertices 0 1)) \<noteq>
     normalized_span round32 AxisX (two_vertices 0 1)"
  by (simp add: span_0_3 span_0_3_moved span_0_1 span_0_1_moved)

end
